theory Spec2Isabelle
  imports
    Complex_Main
    "HOL-Library.Char_ord"
    "HOL-Library.List_Lexorder"
    "HOL-Library.Product_Lexorder"
    "HOL-Library.AList"
    "HOL-Library.Sublist"
begin

section \<open>Decimal integers as the store writes and reads them\<close>

text \<open>
  The store keeps counters as decimal text. \<open>show_int\<close> is the canonical decimal form
  (no leading zeros, \<open>-\<close> for negatives); \<open>parse_int\<close> accepts exactly that form, as the
  store's integer reader does.
\<close>

definition char_of_digit :: "nat \<Rightarrow> char" where
  "char_of_digit d = ''0123456789'' ! d"

definition digit_of_char :: "char \<Rightarrow> nat option" where
  "digit_of_char c =
     (let n = (of_char c :: nat) in if 48 \<le> n \<and> n \<le> 57 then Some (n - 48) else None)"

fun show_nat :: "nat \<Rightarrow> string" where
  "show_nat n =
     (if n < 10 then [char_of_digit n]
      else show_nat (n div 10) @ [char_of_digit (n mod 10)])"

declare show_nat.simps [simp del]

definition show_int :: "int \<Rightarrow> string" where
  "show_int i = (if i < 0 then CHR ''-'' # show_nat (nat (- i)) else show_nat (nat i))"

fun parse_digits :: "nat \<Rightarrow> string \<Rightarrow> nat option" where
  "parse_digits acc [] = Some acc"
| "parse_digits acc (c # cs) =
     (case digit_of_char c of
        None \<Rightarrow> None
      | Some d \<Rightarrow> parse_digits (acc * 10 + d) cs)"

definition parse_loose :: "string \<Rightarrow> int option" where
  "parse_loose s =
     (case s of
        [] \<Rightarrow> None
      | c # cs \<Rightarrow>
          (if c = CHR ''-''
           then (if cs = [] then None else map_option (\<lambda>n. - int n) (parse_digits 0 cs))
           else map_option int (parse_digits 0 s)))"

definition parse_int :: "string \<Rightarrow> int option" where
  "parse_int s =
     (case parse_loose s of
        None \<Rightarrow> None
      | Some n \<Rightarrow> (if show_int n = s then Some n else None))"

definition int64_max :: int where
  "int64_max = 9223372036854775807"

definition int64_min :: int where
  "int64_min = - 9223372036854775808"

section \<open>The key-value store\<close>

text \<open>
  The store is the external server behind \<open>RedisWrapper\<close>. A key holds a string, a sorted
  container or an unordered set, with an optional expiry instant in epoch milliseconds.
  Every operation takes the current time \<open>now\<close> (epoch milliseconds); one controller call
  uses one value of \<open>now\<close> for \<open>Date.now()\<close> and for the store's clock.
  A sorted container is a list of (score, member) pairs; reads order it by score and then
  by member. Scores are the integer millisecond values the controllers compute.
\<close>

datatype rvalue =
    Str string
  | ZSet "(int \<times> string) list"
  | SetV "string list"

datatype entry = Entry (val: rvalue) (expiry: "int option")

type_synonym db = "(string \<times> entry) list"

datatype error =
    WrongType
  | NotAnInteger
  | IncrOverflow
  | InvalidExpire
  | SyntaxError
  | JsonParseError
  | NonFinite
  | LoaderError string

type_synonym 'a reply = "(error + 'a) \<times> db"

definition andThen :: "'a reply \<Rightarrow> ('a \<Rightarrow> db \<Rightarrow> 'b reply) \<Rightarrow> 'b reply" where
  "andThen m f = (case m of (Inl e, d) \<Rightarrow> (Inl e, d) | (Inr a, d) \<Rightarrow> f a d)"

text \<open>A key whose expiry instant has passed is gone (the store expires a key once \<open>now\<close> exceeds it).\<close>

definition expired :: "entry \<Rightarrow> int \<Rightarrow> bool" where
  "expired e now = (case expiry e of None \<Rightarrow> False | Some w \<Rightarrow> w < now)"

definition lookup :: "db \<Rightarrow> int \<Rightarrow> string \<Rightarrow> entry option" where
  "lookup d now k =
     (case map_of d k of
        None \<Rightarrow> None
      | Some e \<Rightarrow> (if expired e now then None else Some e))"

definition store :: "string \<Rightarrow> entry \<Rightarrow> db \<Rightarrow> db" where
  "store k e d = AList.update k e d"

definition remove :: "string \<Rightarrow> db \<Rightarrow> db" where
  "remove k d = AList.delete k d"

subsection \<open>RedisWrapper: strings\<close>

text \<open>\<open>get(key)\<close>: the value or null; a key of another type is an error.\<close>

definition get :: "db \<Rightarrow> int \<Rightarrow> string \<Rightarrow> string option reply" where
  "get d now k =
     (case lookup d now k of
        None \<Rightarrow> (Inr None, d)
      | Some (Entry (Str s) x) \<Rightarrow> (Inr (Some s), d)
      | Some _ \<Rightarrow> (Inl WrongType, d))"

record setOptions =
  EX_sec :: "int option"
  PX_ms :: "int option"
  NX :: bool
  XX :: bool
  KEEPTTL :: bool

text \<open>
  The SET command with the arguments \<open>set\<close> builds from its options. The reply is
  \<open>Some ''OK''\<close>, or \<open>None\<close> (null) when an NX/XX condition is not met.
\<close>

definition cmd_SET ::
  "db \<Rightarrow> int \<Rightarrow> string \<Rightarrow> string \<Rightarrow> setOptions \<Rightarrow> string option reply" where
  "cmd_SET d now k v opts =
     (if (NX opts \<and> XX opts) \<or> (EX_sec opts \<noteq> None \<and> PX_ms opts \<noteq> None)
         \<or> (KEEPTTL opts \<and> (EX_sec opts \<noteq> None \<or> PX_ms opts \<noteq> None))
      then (Inl SyntaxError, d)
      else if (case EX_sec opts of Some s \<Rightarrow> s \<le> 0 | None \<Rightarrow> False)
           \<or> (case PX_ms opts of Some m \<Rightarrow> m \<le> 0 | None \<Rightarrow> False)
      then (Inl InvalidExpire, d)
      else if NX opts \<and> lookup d now k \<noteq> None then (Inr None, d)
      else if XX opts \<and> lookup d now k = None then (Inr None, d)
      else
        (let x = (case EX_sec opts of
                    Some s \<Rightarrow> Some (now + s * 1000)
                  | None \<Rightarrow>
                      (case PX_ms opts of
                         Some m \<Rightarrow> Some (now + m)
                       | None \<Rightarrow>
                           (if KEEPTTL opts
                            then (case lookup d now k of Some e \<Rightarrow> expiry e | None \<Rightarrow> None)
                            else None)))
         in (Inr (Some ''OK''), store k (Entry (Str v) x) d)))"

definition noOptions :: setOptions where
  "noOptions = \<lparr>EX_sec = None, PX_ms = None, NX = False, XX = False, KEEPTTL = False\<rparr>"

text \<open>\<open>set(key, value, opts?)\<close>: without options a plain SET, otherwise SET with the options given.\<close>

definition set_value ::
  "db \<Rightarrow> int \<Rightarrow> string \<Rightarrow> string \<Rightarrow> setOptions option \<Rightarrow> string option reply" where
  "set_value d now k v opts =
     (case opts of
        None \<Rightarrow> cmd_SET d now k v noOptions
      | Some os \<Rightarrow> cmd_SET d now k v os)"

text \<open>\<open>del(...keys)\<close>: no keys gives 0 without a command; otherwise the number of keys removed.\<close>

fun cmd_DEL :: "db \<Rightarrow> int \<Rightarrow> string list \<Rightarrow> int \<times> db" where
  "cmd_DEL d now [] = (0, d)"
| "cmd_DEL d now (k # ks) =
     (let n = (if lookup d now k = None then 0 else 1);
          r = cmd_DEL (remove k d) now ks
      in (n + fst r, snd r))"

definition del :: "db \<Rightarrow> int \<Rightarrow> string list \<Rightarrow> int reply" where
  "del d now ks =
     (if ks = [] then (Inr 0, d)
      else (let r = cmd_DEL d now ks in (Inr (fst r), snd r)))"

text \<open>\<open>incr(key)\<close>: INCR; an absent key counts from 0, the expiry of the key is kept.\<close>

definition incr :: "db \<Rightarrow> int \<Rightarrow> string \<Rightarrow> int reply" where
  "incr d now k =
     (case lookup d now k of
        None \<Rightarrow> (Inr 1, store k (Entry (Str (show_int 1)) None) d)
      | Some (Entry (Str s) x) \<Rightarrow>
          (case parse_int s of
             None \<Rightarrow> (Inl NotAnInteger, d)
           | Some n \<Rightarrow>
               (if n < int64_min \<or> int64_max < n then (Inl NotAnInteger, d)
                else if n = int64_max then (Inl IncrOverflow, d)
                else (Inr (n + 1), store k (Entry (Str (show_int (n + 1))) x) d)))
      | Some _ \<Rightarrow> (Inl WrongType, d))"

text \<open>
  \<open>expire(key, seconds)\<close>: EXPIRE; 0 when the key is absent, otherwise 1. A time that is
  not in the future removes the key.
\<close>

definition expire :: "db \<Rightarrow> int \<Rightarrow> string \<Rightarrow> int \<Rightarrow> int reply" where
  "expire d now k seconds =
     (case lookup d now k of
        None \<Rightarrow> (Inr 0, d)
      | Some e \<Rightarrow>
          (if seconds \<le> 0 then (Inr 1, remove k d)
           else (Inr 1, store k (Entry (val e) (Some (now + seconds * 1000))) d)))"

text \<open>
  \<open>ttl(key)\<close>: TTL; -2 for an absent key, -1 for a key without expiry, otherwise the
  remaining milliseconds rounded to the nearest second, as the store replies.
\<close>

definition ttl :: "db \<Rightarrow> int \<Rightarrow> string \<Rightarrow> int reply" where
  "ttl d now k =
     (case lookup d now k of
        None \<Rightarrow> (Inr (- 2), d)
      | Some e \<Rightarrow>
          (case expiry e of
             None \<Rightarrow> (Inr (- 1), d)
           | Some w \<Rightarrow> (Inr ((w - now + 500) div 1000), d)))"

section \<open>Namespace wrapper (index.ts, createNamespacedRedis)\<close>

definition prefix_of :: "string \<Rightarrow> string" where
  "prefix_of namespace =
     (if namespace \<noteq> [] \<and> last namespace = CHR '':'' then namespace else namespace @ '':'')"

definition addPrefix :: "string \<Rightarrow> string \<Rightarrow> string" where
  "addPrefix namespace key = prefix_of namespace @ key"

definition ns_get :: "string \<Rightarrow> db \<Rightarrow> int \<Rightarrow> string \<Rightarrow> string option reply" where
  "ns_get ns d now key = get d now (addPrefix ns key)"

definition ns_set ::
  "string \<Rightarrow> db \<Rightarrow> int \<Rightarrow> string \<Rightarrow> string \<Rightarrow> setOptions option \<Rightarrow> string option reply" where
  "ns_set ns d now key v opts = set_value d now (addPrefix ns key) v opts"

definition ns_del :: "string \<Rightarrow> db \<Rightarrow> int \<Rightarrow> string list \<Rightarrow> int reply" where
  "ns_del ns d now keys = del d now (map (addPrefix ns) keys)"

definition ns_incr :: "string \<Rightarrow> db \<Rightarrow> int \<Rightarrow> string \<Rightarrow> int reply" where
  "ns_incr ns d now key = incr d now (addPrefix ns key)"

definition ns_expire :: "string \<Rightarrow> db \<Rightarrow> int \<Rightarrow> string \<Rightarrow> int \<Rightarrow> int reply" where
  "ns_expire ns d now key seconds = expire d now (addPrefix ns key) seconds"

definition ns_ttl :: "string \<Rightarrow> db \<Rightarrow> int \<Rightarrow> string \<Rightarrow> int reply" where
  "ns_ttl ns d now key = ttl d now (addPrefix ns key)"

subsection \<open>RedisWrapper: sorted containers and sets\<close>

text \<open>
  ZADD with (score, member) pairs: a member already present takes the new score; the
  reply counts the members that were new.
\<close>

fun zadd_all :: "(int \<times> string) list \<Rightarrow> (int \<times> string) list \<Rightarrow> int \<times> (int \<times> string) list" where
  "zadd_all zs [] = (0, zs)"
| "zadd_all zs (p # ps) =
     (let n = (if snd p \<in> set (map snd zs) then 0 else 1);
          r = zadd_all (p # filter (\<lambda>q. snd q \<noteq> snd p) zs) ps
      in (n + fst r, snd r))"

definition zadd :: "db \<Rightarrow> int \<Rightarrow> string \<Rightarrow> (int \<times> string) list \<Rightarrow> int reply" where
  "zadd d now k members =
     (if members = [] then (Inl SyntaxError, d)
      else
        (case lookup d now k of
           None \<Rightarrow>
             (let r = zadd_all [] members in (Inr (fst r), store k (Entry (ZSet (snd r)) None) d))
         | Some (Entry (ZSet zs) x) \<Rightarrow>
             (let r = zadd_all zs members in (Inr (fst r), store k (Entry (ZSet (snd r)) x) d))
         | Some _ \<Rightarrow> (Inl WrongType, d)))"

text \<open>ZREM: the reply counts the entries removed; a container left empty is deleted.\<close>

definition zrem :: "db \<Rightarrow> int \<Rightarrow> string \<Rightarrow> string list \<Rightarrow> int reply" where
  "zrem d now k members =
     (if members = [] then (Inl SyntaxError, d)
      else
        (case lookup d now k of
           None \<Rightarrow> (Inr 0, d)
         | Some (Entry (ZSet zs) x) \<Rightarrow>
             (let zs' = filter (\<lambda>q. snd q \<notin> set members) zs;
                  n = int (length zs) - int (length zs')
              in (Inr n, if zs' = [] then remove k d else store k (Entry (ZSet zs') x) d))
         | Some _ \<Rightarrow> (Inl WrongType, d)))"

definition zcard :: "db \<Rightarrow> int \<Rightarrow> string \<Rightarrow> int reply" where
  "zcard d now k =
     (case lookup d now k of
        None \<Rightarrow> (Inr 0, d)
      | Some (Entry (ZSet zs) x) \<Rightarrow> (Inr (int (length zs)), d)
      | Some _ \<Rightarrow> (Inl WrongType, d))"

text \<open>
  \<open>command("ZRANGEBYSCORE", key, min, max, "LIMIT", offset, count)\<close>: the members with
  min \<le> score \<le> max in ascending order of (score, member), from \<open>offset\<close>, at most \<open>count\<close>.
\<close>

definition cmd_ZRANGEBYSCORE_LIMIT ::
  "db \<Rightarrow> int \<Rightarrow> string \<Rightarrow> int \<Rightarrow> int \<Rightarrow> nat \<Rightarrow> nat \<Rightarrow> string list reply" where
  "cmd_ZRANGEBYSCORE_LIMIT d now k lo hi offset count =
     (case lookup d now k of
        None \<Rightarrow> (Inr [], d)
      | Some (Entry (ZSet zs) x) \<Rightarrow>
          (Inr (take count (drop offset
                  (map snd (sort (filter (\<lambda>q. lo \<le> fst q \<and> fst q \<le> hi) zs))))), d)
      | Some _ \<Rightarrow> (Inl WrongType, d))"

text \<open>\<open>command("ZREMRANGEBYSCORE", key, min, max)\<close>: removes the entries with min \<le> score \<le> max.\<close>

definition cmd_ZREMRANGEBYSCORE :: "db \<Rightarrow> int \<Rightarrow> string \<Rightarrow> int \<Rightarrow> int \<Rightarrow> int reply" where
  "cmd_ZREMRANGEBYSCORE d now k lo hi =
     (case lookup d now k of
        None \<Rightarrow> (Inr 0, d)
      | Some (Entry (ZSet zs) x) \<Rightarrow>
          (let zs' = filter (\<lambda>q. \<not> (lo \<le> fst q \<and> fst q \<le> hi)) zs;
               n = int (length zs) - int (length zs')
           in (Inr n, if zs' = [] then remove k d else store k (Entry (ZSet zs') x) d))
      | Some _ \<Rightarrow> (Inl WrongType, d))"

text \<open>\<open>command("ZSCORE", key, member)\<close>: the score of the member, or null.\<close>

definition cmd_ZSCORE :: "db \<Rightarrow> int \<Rightarrow> string \<Rightarrow> string \<Rightarrow> int option reply" where
  "cmd_ZSCORE d now k member =
     (case lookup d now k of
        None \<Rightarrow> (Inr None, d)
      | Some (Entry (ZSet zs) x) \<Rightarrow> (Inr (map_of (map (\<lambda>q. (snd q, fst q)) zs) member), d)
      | Some _ \<Rightarrow> (Inl WrongType, d))"

text \<open>\<open>command("SADD", key, member)\<close> and \<open>command("SISMEMBER", key, member)\<close>.\<close>

definition cmd_SADD :: "db \<Rightarrow> int \<Rightarrow> string \<Rightarrow> string \<Rightarrow> int reply" where
  "cmd_SADD d now k member =
     (case lookup d now k of
        None \<Rightarrow> (Inr 1, store k (Entry (SetV [member]) None) d)
      | Some (Entry (SetV ms) x) \<Rightarrow>
          (if member \<in> set ms then (Inr 0, d)
           else (Inr 1, store k (Entry (SetV (member # ms)) x) d))
      | Some _ \<Rightarrow> (Inl WrongType, d))"


subsection \<open>RedisWrapper: JSON helpers and key enumeration\<close>

text \<open>
  \<open>JSON.stringify\<close> and \<open>JSON.parse\<close> belong to the language runtime; the model takes them
  as a pair of functions. \<open>parse\<close> gives \<open>None\<close> where \<open>getJSON\<close> gives null: the text is not
  JSON (the exception is caught) or it is the JSON \<open>null\<close>.
\<close>

record 'a json =
  stringify :: "'a \<Rightarrow> string"
  parse :: "string \<Rightarrow> 'a option"

definition getJSON :: "'a json \<Rightarrow> db \<Rightarrow> int \<Rightarrow> string \<Rightarrow> 'a option reply" where
  "getJSON c d now k =
     andThen (get d now k) (\<lambda>value d1.
       (case value of
          None \<Rightarrow> (Inr None, d1)
        | Some s \<Rightarrow> (if s = [] then (Inr None, d1) else (Inr (parse c s), d1))))"

definition setJSON ::
  "'a json \<Rightarrow> db \<Rightarrow> int \<Rightarrow> string \<Rightarrow> 'a \<Rightarrow> setOptions option \<Rightarrow> string option reply" where
  "setJSON c d now k obj opts = set_value d now k (stringify c obj) opts"

text \<open>
  \<open>scanAll(pattern)\<close>: the live keys matching the pattern. The store's glob matcher is the
  parameter \<open>glob\<close>.
\<close>

definition scanAll :: "(string \<Rightarrow> string \<Rightarrow> bool) \<Rightarrow> db \<Rightarrow> int \<Rightarrow> string \<Rightarrow> string list reply" where
  "scanAll glob d now pattern =
     (Inr (filter (\<lambda>k. lookup d now k \<noteq> None \<and> glob pattern k) (remdups (map fst d))), d)"

subsection \<open>Namespace wrapper: the remaining operations\<close>

text \<open>
  Each method prefixes its key and delegates. \<open>command(cmd, ...args)\<close> prefixes its first
  argument, which is the key in every command the controllers send.
\<close>

definition ns_getJSON :: "string \<Rightarrow> 'a json \<Rightarrow> db \<Rightarrow> int \<Rightarrow> string \<Rightarrow> 'a option reply" where
  "ns_getJSON ns c d now key = getJSON c d now (addPrefix ns key)"

definition ns_setJSON ::
  "string \<Rightarrow> 'a json \<Rightarrow> db \<Rightarrow> int \<Rightarrow> string \<Rightarrow> 'a \<Rightarrow> setOptions option \<Rightarrow> string option reply" where
  "ns_setJSON ns c d now key obj opts = setJSON c d now (addPrefix ns key) obj opts"

definition ns_zadd :: "string \<Rightarrow> db \<Rightarrow> int \<Rightarrow> string \<Rightarrow> (int \<times> string) list \<Rightarrow> int reply" where
  "ns_zadd ns d now key members = zadd d now (addPrefix ns key) members"

definition ns_zrem :: "string \<Rightarrow> db \<Rightarrow> int \<Rightarrow> string \<Rightarrow> string list \<Rightarrow> int reply" where
  "ns_zrem ns d now key members = zrem d now (addPrefix ns key) members"

definition ns_zcard :: "string \<Rightarrow> db \<Rightarrow> int \<Rightarrow> string \<Rightarrow> int reply" where
  "ns_zcard ns d now key = zcard d now (addPrefix ns key)"

definition ns_ZRANGEBYSCORE_LIMIT ::
  "string \<Rightarrow> db \<Rightarrow> int \<Rightarrow> string \<Rightarrow> int \<Rightarrow> int \<Rightarrow> nat \<Rightarrow> nat \<Rightarrow> string list reply" where
  "ns_ZRANGEBYSCORE_LIMIT ns d now key lo hi offset count =
     cmd_ZRANGEBYSCORE_LIMIT d now (addPrefix ns key) lo hi offset count"

definition ns_ZREMRANGEBYSCORE :: "string \<Rightarrow> db \<Rightarrow> int \<Rightarrow> string \<Rightarrow> int \<Rightarrow> int \<Rightarrow> int reply" where
  "ns_ZREMRANGEBYSCORE ns d now key lo hi = cmd_ZREMRANGEBYSCORE d now (addPrefix ns key) lo hi"

definition ns_ZSCORE :: "string \<Rightarrow> db \<Rightarrow> int \<Rightarrow> string \<Rightarrow> string \<Rightarrow> int option reply" where
  "ns_ZSCORE ns d now key member = cmd_ZSCORE d now (addPrefix ns key) member"

definition ns_SADD :: "string \<Rightarrow> db \<Rightarrow> int \<Rightarrow> string \<Rightarrow> string \<Rightarrow> int reply" where
  "ns_SADD ns d now key member = cmd_SADD d now (addPrefix ns key) member"


section \<open>RateLimiterController\<close>

text \<open>
  Counts, limits and times are the numbers of the source; the model takes request limits,
  window lengths and times as integers and token amounts and rates as rationals. Where
  the source divides by zero and leaves the finite numbers, the model ends the call with
  \<open>NonFinite\<close> after the store writes the source has made by then.
\<close>

record rateLimitResult =
  allowed :: bool
  remaining :: rat
  limit :: rat
  resetAt :: rat
  retryAfter :: "rat option"

datatype rateLimitAlgorithm = Fixed | Sliding | TokenBucket

fun algorithm_name :: "rateLimitAlgorithm \<Rightarrow> string" where
  "algorithm_name Fixed = ''fixed''"
| "algorithm_name Sliding = ''sliding''"
| "algorithm_name TokenBucket = ''token-bucket''"

record rateLimitOptions =
  algorithm :: "rateLimitAlgorithm option"
  capacity :: "rat option"
  refillRate :: "rat option"

definition limiter_namespace :: string where
  "limiter_namespace = ''ratelimit''"

definition checkFixedWindow :: "db \<Rightarrow> int \<Rightarrow> string \<Rightarrow> int \<Rightarrow> int \<Rightarrow> rateLimitResult reply" where
  "checkFixedWindow d now identifier maxRequests windowSeconds =
     (let key = ''fixed:'' @ identifier in
      andThen (ns_incr limiter_namespace d now key) (\<lambda>count d1.
      andThen (if count = 1 then ns_expire limiter_namespace d1 now key windowSeconds
               else (Inr 0, d1)) (\<lambda>_ d2.
      andThen (ns_ttl limiter_namespace d2 now key) (\<lambda>t d3.
        (let ok = (count \<le> maxRequests) in
         (Inr \<lparr>allowed = ok,
               remaining = of_int (max 0 (maxRequests - count)),
               limit = of_int maxRequests,
               resetAt = of_int (now + t * 1000),
               retryAfter = (if ok then None else Some (of_int t))\<rparr>, d3))))))"

text \<open>\<open>rnd\<close> is the text of \<open>Math.random()\<close> that makes the member unique.\<close>

definition checkSlidingWindow ::
  "db \<Rightarrow> int \<Rightarrow> string \<Rightarrow> string \<Rightarrow> int \<Rightarrow> int \<Rightarrow> rateLimitResult reply" where
  "checkSlidingWindow d now rnd identifier maxRequests windowSeconds =
     (let key = ''sliding:'' @ identifier;
          windowStart = now - windowSeconds * 1000 in
      andThen (ns_ZREMRANGEBYSCORE limiter_namespace d now key 0 windowStart) (\<lambda>_ d1.
      andThen (ns_zcard limiter_namespace d1 now key) (\<lambda>count d2.
        (let ok = (count < maxRequests) in
         andThen (if ok
                  then andThen (ns_zadd limiter_namespace d2 now key [(now, show_int now @ ''-'' @ rnd)])
                         (\<lambda>_ d3. ns_expire limiter_namespace d3 now key windowSeconds)
                  else (Inr 0, d2)) (\<lambda>_ d4.
           (Inr \<lparr>allowed = ok,
                 remaining = of_int (max 0 (maxRequests - count - (if ok then 1 else 0))),
                 limit = of_int maxRequests,
                 resetAt = of_int (now + windowSeconds * 1000),
                 retryAfter = (if ok then None else Some (of_int windowSeconds))\<rparr>, d4))))))"

record bucket =
  tokens :: rat
  lastRefill :: int

text \<open>
  The bucket record is read with \<open>JSON.parse\<close> outside any handler: text that does not
  parse to a bucket record ends the call with \<open>JsonParseError\<close>.
\<close>

definition checkTokenBucket ::
  "bucket json \<Rightarrow> db \<Rightarrow> int \<Rightarrow> string \<Rightarrow> rat \<Rightarrow> rat \<Rightarrow> rateLimitResult reply" where
  "checkTokenBucket c d now identifier cap rate =
     (let key = ''bucket:'' @ identifier in
      andThen (ns_get limiter_namespace d now key) (\<lambda>bucketData d1.
      andThen (case bucketData of
                 None \<Rightarrow> (Inr cap, d1)
               | Some s \<Rightarrow>
                   (if s = [] then (Inr cap, d1)
                    else (case parse c s of
                            None \<Rightarrow> (Inl JsonParseError, d1)
                          | Some b \<Rightarrow>
                              (let elapsed = of_int (now - lastRefill b) / 1000;
                                   tokensToAdd = elapsed * rate
                               in (Inr (min cap (tokens b + tokensToAdd)), d1))))) (\<lambda>tokens0 d2.
        (let ok = (tokens0 \<ge> 1);
             tokens1 = (if ok then tokens0 - 1 else tokens0) in
         andThen (ns_set limiter_namespace d2 now key
                    (stringify c \<lparr>tokens = tokens1, lastRefill = now\<rparr>)
                    (Some (noOptions\<lparr>EX_sec := Some 3600\<rparr>))) (\<lambda>_ d3.
           (if rate = 0 then (Inl NonFinite, d3)
            else
              (Inr \<lparr>allowed = ok,
                    remaining = of_int \<lfloor>tokens1\<rfloor>,
                    limit = cap,
                    resetAt = of_int now + (cap - tokens1) / rate * 1000,
                    retryAfter = (if ok then None else Some (of_int \<lceil>(1 - tokens1) / rate\<rceil>))\<rparr>,
               d3)))))))"

definition check ::
  "bucket json \<Rightarrow> db \<Rightarrow> int \<Rightarrow> string \<Rightarrow> string \<Rightarrow> int \<Rightarrow> int \<Rightarrow> rateLimitOptions
     \<Rightarrow> rateLimitResult reply" where
  "check c d now rnd identifier maxRequests windowSeconds options =
     (case (case algorithm options of None \<Rightarrow> Fixed | Some a \<Rightarrow> a) of
        Sliding \<Rightarrow> checkSlidingWindow d now rnd identifier maxRequests windowSeconds
      | TokenBucket \<Rightarrow>
          (let cap = (case capacity options of
                        None \<Rightarrow> of_int maxRequests
                      | Some x \<Rightarrow> (if x = 0 then of_int maxRequests else x));
               given = (case refillRate options of
                          None \<Rightarrow> None
                        | Some r \<Rightarrow> (if r = 0 then None else Some r))
           in (case given of
                 Some r \<Rightarrow> checkTokenBucket c d now identifier cap r
               | None \<Rightarrow>
                   (if windowSeconds = 0 then (Inl NonFinite, d)
                    else checkTokenBucket c d now identifier cap
                           (of_int maxRequests / of_int windowSeconds))))
      | Fixed \<Rightarrow> checkFixedWindow d now identifier maxRequests windowSeconds)"

text \<open>A caller that checks the same identifier at the times given, one call after the other.\<close>

fun fixed_window_run ::
  "db \<Rightarrow> int list \<Rightarrow> string \<Rightarrow> int \<Rightarrow> int \<Rightarrow> (error + rateLimitResult) list \<times> db" where
  "fixed_window_run d [] identifier maxRequests windowSeconds = ([], d)"
| "fixed_window_run d (t # ts) identifier maxRequests windowSeconds =
     (let r = checkFixedWindow d t identifier maxRequests windowSeconds;
          rest = fixed_window_run (snd r) ts identifier maxRequests windowSeconds
      in (fst r # fst rest, snd rest))"

fun reset_keys :: "db \<Rightarrow> int \<Rightarrow> string list \<Rightarrow> unit reply" where
  "reset_keys d now [] = (Inr (), d)"
| "reset_keys d now (pattern # patterns) =
     andThen (ns_del limiter_namespace d now [pattern]) (\<lambda>_ d1. reset_keys d1 now patterns)"

definition reset :: "db \<Rightarrow> int \<Rightarrow> string \<Rightarrow> rateLimitAlgorithm option \<Rightarrow> unit reply" where
  "reset d now identifier alg =
     (let patterns =
            (case alg of
               Some a \<Rightarrow> [algorithm_name a @ '':'' @ identifier]
             | None \<Rightarrow> [''fixed:'' @ identifier, ''sliding:'' @ identifier, ''bucket:'' @ identifier])
      in reset_keys d now patterns)"

section \<open>CacheController\<close>

text \<open>
  The controller talks to the store directly (not through the namespace wrapper) and
  builds its keys with \<open>getKey\<close>. The counters live under the fixed \<open>statsKey\<close>.
  The loader is a function of the caller: it runs in a world \<open>'w\<close> of its own, which it
  may change, and gives a value or fails.
\<close>

definition statsKey :: string where
  "statsKey = ''cache:stats''"

definition getKey :: "string \<Rightarrow> string \<Rightarrow> string" where
  "getKey namespace key = namespace @ '':'' @ key"

definition incrementHits :: "db \<Rightarrow> int \<Rightarrow> unit reply" where
  "incrementHits d now = andThen (incr d now (statsKey @ '':hits'')) (\<lambda>_ d1. (Inr (), d1))"

definition incrementMisses :: "db \<Rightarrow> int \<Rightarrow> unit reply" where
  "incrementMisses d now = andThen (incr d now (statsKey @ '':misses'')) (\<lambda>_ d1. (Inr (), d1))"

definition ttl_or_default :: "int option \<Rightarrow> int" where
  "ttl_or_default t = (case t of None \<Rightarrow> 300 | Some s \<Rightarrow> s)"

definition getOrSet ::
  "'v json \<Rightarrow> string \<Rightarrow> db \<Rightarrow> int \<Rightarrow> string \<Rightarrow> ('w \<Rightarrow> (error + 'v) \<times> 'w) \<Rightarrow> 'w \<Rightarrow> int option
     \<Rightarrow> 'v reply \<times> 'w" where
  "getOrSet c namespace d now key loader w t =
     (let cacheKey = getKey namespace key in
      (case getJSON c d now cacheKey of
         (Inl e, d1) \<Rightarrow> ((Inl e, d1), w)
       | (Inr (Some cached), d1) \<Rightarrow>
           (andThen (incrementHits d1 now) (\<lambda>_ d2. (Inr cached, d2)), w)
       | (Inr None, d1) \<Rightarrow>
           (case incrementMisses d1 now of
              (Inl e, d2) \<Rightarrow> ((Inl e, d2), w)
            | (Inr _, d2) \<Rightarrow>
                (case loader w of
                   (Inl e, w') \<Rightarrow> ((Inl e, d2), w')
                 | (Inr data, w') \<Rightarrow>
                     (andThen (setJSON c d2 now cacheKey data
                                 (Some (noOptions\<lparr>EX_sec := Some (ttl_or_default t)\<rparr>)))
                        (\<lambda>_ d3. (Inr data, d3)), w')))))"

definition cache_get :: "'v json \<Rightarrow> string \<Rightarrow> db \<Rightarrow> int \<Rightarrow> string \<Rightarrow> 'v option reply" where
  "cache_get c namespace d now key =
     (let cacheKey = getKey namespace key in
      andThen (getJSON c d now cacheKey) (\<lambda>value d1.
      andThen (if value \<noteq> None then incrementHits d1 now else incrementMisses d1 now) (\<lambda>_ d2.
        (Inr value, d2))))"

text \<open>
  \<open>parseInt(text)\<close>: leading white space, an optional sign, then the longest run of
  digits in radix 10, or in radix 16 after \<open>0x\<close>; \<open>None\<close> is NaN.
\<close>

definition js_space :: "char \<Rightarrow> bool" where
  "js_space c = ((of_char c :: nat) \<in> {9, 10, 11, 12, 13, 32})"

definition hex_of_char :: "char \<Rightarrow> nat option" where
  "hex_of_char c =
     (let n = (of_char c :: nat) in
      if 48 \<le> n \<and> n \<le> 57 then Some (n - 48)
      else if 65 \<le> n \<and> n \<le> 70 then Some (n - 55)
      else if 97 \<le> n \<and> n \<le> 102 then Some (n - 87)
      else None)"

fun digits_value :: "nat \<Rightarrow> (char \<Rightarrow> nat option) \<Rightarrow> nat \<Rightarrow> string \<Rightarrow> nat" where
  "digits_value radix dig acc [] = acc"
| "digits_value radix dig acc (c # cs) =
     (case dig c of
        None \<Rightarrow> acc
      | Some v \<Rightarrow> digits_value radix dig (acc * radix + v) cs)"

definition parse_prefix :: "nat \<Rightarrow> (char \<Rightarrow> nat option) \<Rightarrow> string \<Rightarrow> nat option" where
  "parse_prefix radix dig s =
     (case s of
        [] \<Rightarrow> None
      | c # cs \<Rightarrow> (if dig c = None then None else Some (digits_value radix dig 0 s)))"

definition parseInt :: "string \<Rightarrow> int option" where
  "parseInt text =
     (let s = dropWhile js_space text;
          neg = (s \<noteq> [] \<and> hd s = CHR ''-'');
          body = (if s \<noteq> [] \<and> (hd s = CHR ''-'' \<or> hd s = CHR ''+'') then tl s else s);
          hex = (take 2 body = ''0x'' \<or> take 2 body = ''0X'');
          mag = (if hex then parse_prefix 16 hex_of_char (drop 2 body)
                 else parse_prefix 10 digit_of_char body)
      in map_option (\<lambda>n. if neg then - int n else int n) mag)"

record cacheStats =
  hits :: "int option"
  misses :: "int option"
  hitRate :: rat
  totalKeys :: nat

text \<open>\<open>Math.round\<close> on the rationals: the nearest integer, halves upwards.\<close>

definition math_round :: "rat \<Rightarrow> int" where
  "math_round x = \<lfloor>x + 1 / 2\<rfloor>"

definition or_zero :: "string option \<Rightarrow> string" where
  "or_zero v = (case v of None \<Rightarrow> ''0'' | Some s \<Rightarrow> (if s = [] then ''0'' else s))"

definition getStats ::
  "(string \<Rightarrow> string \<Rightarrow> bool) \<Rightarrow> string \<Rightarrow> db \<Rightarrow> int \<Rightarrow> cacheStats reply" where
  "getStats glob namespace d now =
     andThen (get d now (statsKey @ '':hits'')) (\<lambda>h d1.
     andThen (get d1 now (statsKey @ '':misses'')) (\<lambda>m d2.
       (let hits = parseInt (or_zero h);
            misses = parseInt (or_zero m);
            rate = (case (hits, misses) of
                      (Some a, Some b) \<Rightarrow>
                        (if a + b > 0 then (of_int a / of_int (a + b)) * 100 else 0)
                    | _ \<Rightarrow> 0)
        in andThen (scanAll glob d2 now (getKey namespace ''*'')) (\<lambda>keys d3.
             (Inr \<lparr>hits = hits, misses = misses,
                   hitRate = of_int (math_round (rate * 100)) / 100,
                   totalKeys = length keys\<rparr>, d3)))))"

text \<open>
  The counter under \<open>k\<close> reads \<open>n\<close>: the key is absent and \<open>n = 0\<close>, or it holds the decimal
  text of \<open>n\<close> without expiry, as INCR creates and keeps it.
\<close>

definition counter_at :: "db \<Rightarrow> string \<Rightarrow> int \<Rightarrow> bool" where
  "counter_at d k n =
     (int64_min \<le> n \<and> n \<le> int64_max \<and>
      (case map_of d k of
         None \<Rightarrow> n = 0
       | Some e \<Rightarrow> e = Entry (Str (show_int n)) None))"

section \<open>QueueController\<close>

record 'p job =
  job_id :: string
  job_type :: string
  job_data :: 'p
  priority :: int
  createdAt :: int
  attempts :: nat
  maxRetries :: int
  lastError :: "string option"
  scheduledFor :: "int option"

record jobOptions =
  opt_priority :: "int option"
  opt_maxRetries :: "int option"
  opt_delay :: "int option"
  opt_scheduledFor :: "int option"


definition queue_namespace :: string where
  "queue_namespace = ''queue''"

text \<open>\<open>generateJobId\<close>: the time, a dash and the random text \<open>rnd\<close>.\<close>

definition generateJobId :: "int \<Rightarrow> string \<Rightarrow> string" where
  "generateJobId now rnd = show_int now @ ''-'' @ rnd"

definition schedule_time :: "int \<Rightarrow> jobOptions \<Rightarrow> int" where
  "schedule_time now options =
     (case (case opt_scheduledFor options of
              None \<Rightarrow> None
            | Some t \<Rightarrow> (if t = 0 then None else Some t)) of
        Some t \<Rightarrow> t
      | None \<Rightarrow>
          (case opt_delay options of
             None \<Rightarrow> now
           | Some dl \<Rightarrow> (if dl = 0 then now else now + dl * 1000)))"

definition new_job :: "int \<Rightarrow> string \<Rightarrow> string \<Rightarrow> 'p \<Rightarrow> jobOptions \<Rightarrow> 'p job" where
  "new_job now jobId ty payload options =
     \<lparr>job_id = jobId,
      job_type = ty,
      job_data = payload,
      priority = (case opt_priority options of
                    None \<Rightarrow> 5
                  | Some p \<Rightarrow> (if p = 0 then 5 else p)),
      createdAt = now,
      attempts = 0,
      maxRetries = (case opt_maxRetries options of None \<Rightarrow> 3 | Some m \<Rightarrow> m),
      lastError = None,
      scheduledFor = Some (schedule_time now options)\<rparr>"

definition add ::
  "'p job json \<Rightarrow> db \<Rightarrow> int \<Rightarrow> string \<Rightarrow> string \<Rightarrow> 'p \<Rightarrow> jobOptions \<Rightarrow> string reply" where
  "add c d now rnd ty payload options =
     (let jobId = generateJobId now rnd;
          j = new_job now jobId ty payload options in
      andThen (ns_setJSON queue_namespace c d now (''job:'' @ jobId) j None) (\<lambda>_ d1.
        (let score = schedule_time now options + (10 - priority j) in
         andThen (ns_zadd queue_namespace d1 now ''pending'' [(score, jobId)]) (\<lambda>_ d2.
           (Inr jobId, d2)))))"

text \<open>The part of \<open>next\<close> after it has read the candidate id.\<close>

definition next_claim :: "'p job json \<Rightarrow> db \<Rightarrow> int \<Rightarrow> string \<Rightarrow> 'p job option reply" where
  "next_claim c d now jobId =
     andThen (ns_zrem queue_namespace d now ''pending'' [jobId]) (\<lambda>_ d1.
     andThen (ns_zadd queue_namespace d1 now ''processing'' [(now, jobId)]) (\<lambda>_ d2.
     andThen (ns_getJSON queue_namespace c d2 now (''job:'' @ jobId)) (\<lambda>j d3.
       (case j of
          None \<Rightarrow>
            andThen (ns_zrem queue_namespace d3 now ''processing'' [jobId]) (\<lambda>_ d4.
              (Inr None, d4))
        | Some found \<Rightarrow> (Inr (Some found), d3)))))"

definition next_candidate :: "db \<Rightarrow> int \<Rightarrow> string list reply" where
  "next_candidate d now = ns_ZRANGEBYSCORE_LIMIT queue_namespace d now ''pending'' 0 now 0 1"

definition next_job :: "'p job json \<Rightarrow> db \<Rightarrow> int \<Rightarrow> 'p job option reply" where
  "next_job c d now =
     andThen (next_candidate d now) (\<lambda>results d1.
       (case results of
          [] \<Rightarrow> (Inr None, d1)
        | jobId # _ \<Rightarrow> next_claim c d1 now jobId))"

definition fail :: "'p job json \<Rightarrow> db \<Rightarrow> int \<Rightarrow> string \<Rightarrow> string \<Rightarrow> unit reply" where
  "fail c d now jobId err =
     andThen (ns_getJSON queue_namespace c d now (''job:'' @ jobId)) (\<lambda>found d1.
       (case found of
          None \<Rightarrow> (Inr (), d1)
        | Some j0 \<Rightarrow>
            (let j = j0\<lparr>attempts := attempts j0 + 1, lastError := Some err\<rparr> in
             andThen (ns_zrem queue_namespace d1 now ''processing'' [jobId]) (\<lambda>_ d2.
               (if int (attempts j) < maxRetries j
                then
                  (let delay = 2 ^ attempts j;
                       retryAt = now + delay * 1000 in
                   andThen (ns_setJSON queue_namespace c d2 now (''job:'' @ jobId) j None) (\<lambda>_ d3.
                   andThen (ns_zadd queue_namespace d3 now ''pending'' [(retryAt, jobId)]) (\<lambda>_ d4.
                     (Inr (), d4))))
                else
                  andThen (ns_SADD queue_namespace d2 now ''failed'' jobId) (\<lambda>_ d3.
                  andThen (ns_setJSON queue_namespace c d3 now (''job:'' @ jobId) j
                             (Some (noOptions\<lparr>EX_sec := Some 86400\<rparr>))) (\<lambda>_ d4.
                    (Inr (), d4))))))))"

definition getJob :: "'p job json \<Rightarrow> db \<Rightarrow> int \<Rightarrow> string \<Rightarrow> 'p job option reply" where
  "getJob c d now jobId = ns_getJSON queue_namespace c d now (''job:'' @ jobId)"


subsection \<open>The queue's keys and what they hold\<close>

definition pending_key :: string where
  "pending_key = addPrefix queue_namespace ''pending''"

definition processing_key :: string where
  "processing_key = addPrefix queue_namespace ''processing''"

definition failed_key :: string where
  "failed_key = addPrefix queue_namespace ''failed''"

definition job_key :: "string \<Rightarrow> string" where
  "job_key jobId = addPrefix queue_namespace (''job:'' @ jobId)"

text \<open>
  The sorted container under \<open>k\<close> holds the entries \<open>zs\<close> and has no expiry (the
  controller never sets one); an absent key is the empty container. Likewise for a set.
\<close>

definition plain_zset :: "db \<Rightarrow> string \<Rightarrow> (int \<times> string) list \<Rightarrow> bool" where
  "plain_zset d k zs =
     (case map_of d k of None \<Rightarrow> zs = [] | Some e \<Rightarrow> e = Entry (ZSet zs) None)"

definition plain_set :: "db \<Rightarrow> string \<Rightarrow> string list \<Rightarrow> bool" where
  "plain_set d k ms =
     (case map_of d k of None \<Rightarrow> ms = [] | Some e \<Rightarrow> e = Entry (SetV ms) None)"

text \<open>The store with the container under \<open>k\<close> set to \<open>zs\<close>; an empty container is deleted.\<close>

definition put_zset :: "string \<Rightarrow> (int \<times> string) list \<Rightarrow> db \<Rightarrow> db" where
  "put_zset k zs d = (if zs = [] then remove k d else store k (Entry (ZSet zs) None) d)"




text \<open>The value reads back from its JSON text.\<close>

definition reads_back :: "'a json \<Rightarrow> 'a \<Rightarrow> bool" where
  "reads_back c v = (stringify c v \<noteq> [] \<and> parse c (stringify c v) = Some v)"


section \<open>A JSON writer and reader for the concrete runs\<close>

text \<open>
  The theorems below hold for any pair of JSON functions. The concrete runs need one:
  this is the JSON text of a job record with a text payload, and of a text, for strings
  that need no escaping, with the keys in the order the controller creates them.
\<close>

definition quote :: "string \<Rightarrow> string" where
  "quote s = CHR 0x22 # s @ [CHR 0x22]"

definition field :: "string \<Rightarrow> string \<Rightarrow> string" where
  "field name v = quote name @ '':'' @ v"

definition stringify_job :: "string job \<Rightarrow> string" where
  "stringify_job j =
     ''{'' @ field ''id'' (quote (job_id j))
     @ '','' @ field ''type'' (quote (job_type j))
     @ '','' @ field ''data'' (quote (job_data j))
     @ '','' @ field ''priority'' (show_int (priority j))
     @ '','' @ field ''createdAt'' (show_int (createdAt j))
     @ '','' @ field ''attempts'' (show_int (int (attempts j)))
     @ '','' @ field ''maxRetries'' (show_int (maxRetries j))
     @ (case scheduledFor j of None \<Rightarrow> [] | Some t \<Rightarrow> '','' @ field ''scheduledFor'' (show_int t))
     @ (case lastError j of None \<Rightarrow> [] | Some e \<Rightarrow> '','' @ field ''lastError'' (quote e))
     @ ''}''"

fun strip :: "string \<Rightarrow> string \<Rightarrow> string option" where
  "strip [] s = Some s"
| "strip (p # ps) [] = None"
| "strip (p # ps) (c # cs) = (if p = c then strip ps cs else None)"

definition read_quoted :: "string \<Rightarrow> (string \<times> string) option" where
  "read_quoted s =
     (case s of
        [] \<Rightarrow> None
      | c # cs \<Rightarrow>
          (if c \<noteq> CHR 0x22 then None
           else (case dropWhile (\<lambda>x. x \<noteq> CHR 0x22) cs of
                   [] \<Rightarrow> None
                 | _ # rest \<Rightarrow> Some (takeWhile (\<lambda>x. x \<noteq> CHR 0x22) cs, rest))))"

definition read_number :: "string \<Rightarrow> (int \<times> string) option" where
  "read_number s =
     (let tok = takeWhile (\<lambda>x. x = CHR ''-'' \<or> digit_of_char x \<noteq> None) s in
      (case parse_int tok of
         None \<Rightarrow> None
       | Some n \<Rightarrow> Some (n, drop (length tok) s)))"

definition read_field ::
  "string \<Rightarrow> (string \<Rightarrow> ('a \<times> string) option) \<Rightarrow> string \<Rightarrow> ('a \<times> string) option" where
  "read_field name rd s =
     (case strip (field name []) s of None \<Rightarrow> None | Some rest \<Rightarrow> rd rest)"

definition read_optional ::
  "string \<Rightarrow> (string \<Rightarrow> ('a \<times> string) option) \<Rightarrow> string \<Rightarrow> ('a option \<times> string) option" where
  "read_optional name rd s =
     (case strip ('','' @ field name []) s of
        None \<Rightarrow> Some (None, s)
      | Some rest \<Rightarrow> (case rd rest of None \<Rightarrow> None | Some (v, s') \<Rightarrow> Some (Some v, s')))"

definition parse_job :: "string \<Rightarrow> string job option" where
  "parse_job s0 =
     (case strip ''{'' s0 of None \<Rightarrow> None | Some s1 \<Rightarrow>
     (case read_field ''id'' read_quoted s1 of None \<Rightarrow> None | Some (i, s2) \<Rightarrow>
     (case strip '','' s2 of None \<Rightarrow> None | Some s3 \<Rightarrow>
     (case read_field ''type'' read_quoted s3 of None \<Rightarrow> None | Some (ty, s4) \<Rightarrow>
     (case strip '','' s4 of None \<Rightarrow> None | Some s5 \<Rightarrow>
     (case read_field ''data'' read_quoted s5 of None \<Rightarrow> None | Some (dt, s6) \<Rightarrow>
     (case strip '','' s6 of None \<Rightarrow> None | Some s7 \<Rightarrow>
     (case read_field ''priority'' read_number s7 of None \<Rightarrow> None | Some (pr, s8) \<Rightarrow>
     (case strip '','' s8 of None \<Rightarrow> None | Some s9 \<Rightarrow>
     (case read_field ''createdAt'' read_number s9 of None \<Rightarrow> None | Some (cr, s10) \<Rightarrow>
     (case strip '','' s10 of None \<Rightarrow> None | Some s11 \<Rightarrow>
     (case read_field ''attempts'' read_number s11 of None \<Rightarrow> None | Some (att, s12) \<Rightarrow>
     (case strip '','' s12 of None \<Rightarrow> None | Some s13 \<Rightarrow>
     (case read_field ''maxRetries'' read_number s13 of None \<Rightarrow> None | Some (mr, s14) \<Rightarrow>
     (case read_optional ''scheduledFor'' read_number s14 of None \<Rightarrow> None | Some (sf, s15) \<Rightarrow>
     (case read_optional ''lastError'' read_quoted s15 of None \<Rightarrow> None | Some (le, s16) \<Rightarrow>
       (if s16 = ''}'' \<and> 0 \<le> att
        then Some \<lparr>job_id = i, job_type = ty, job_data = dt, priority = pr, createdAt = cr,
                   attempts = nat att, maxRetries = mr, lastError = le, scheduledFor = sf\<rparr>
        else None)))))))))))))))))"

definition json_job :: "string job json" where
  "json_job = \<lparr>stringify = stringify_job, parse = parse_job\<rparr>"

definition json_text :: "string json" where
  "json_text =
     \<lparr>stringify = quote,
      parse = (\<lambda>s. case read_quoted s of
                     None \<Rightarrow> None
                   | Some (t, rest) \<Rightarrow> (if rest = [] then Some t else None))\<rparr>"

text \<open>A glob matcher for the concrete runs: \<open>*\<close>, \<open>?\<close> and literal characters.\<close>

fun glob_match :: "string \<Rightarrow> string \<Rightarrow> bool" where
  "glob_match [] s = (s = [])"
| "glob_match (p # ps) [] = (p = CHR ''*'' \<and> glob_match ps [])"
| "glob_match (p # ps) (c # cs) =
     (if p = CHR ''*'' then glob_match ps (c # cs) \<or> glob_match (p # ps) cs
      else (p = CHR ''?'' \<or> p = c) \<and> glob_match ps cs)"

text \<open>A loader that counts its calls in its world and gives a fixed text.\<close>

definition name_loader :: "nat \<Rightarrow> (error + string) \<times> nat" where
  "name_loader n = (Inr ''alice'', Suc n)"




text \<open>
  A queue run: a job is added at time 1000 with priority 8, claimed at 1002, and fails
  at 2000.
\<close>

definition demo_options :: jobOptions where
  "demo_options = \<lparr>opt_priority = Some 8, opt_maxRetries = None, opt_delay = None,
                    opt_scheduledFor = None\<rparr>"

definition demo_job :: "string job" where
  "demo_job = \<lparr>job_id = ''1000-abc'', job_type = ''email'', job_data = ''hello'', priority = 8,
                createdAt = 1000, attempts = 0, maxRetries = 3, lastError = None,
                scheduledFor = Some 1000\<rparr>"

definition queue_run_add :: "string reply" where
  "queue_run_add = add json_job [] 1000 ''abc'' ''email'' ''hello'' demo_options"

definition queue_run_next :: "string job option reply" where
  "queue_run_next = next_job json_job (snd queue_run_add) 1002"


text \<open>The same queue with a second pending entry whose record does not exist.\<close>

definition queue_run_ghost :: db where
  "queue_run_ghost = snd (ns_zadd queue_namespace (snd queue_run_add) 1000 ''pending'' [(5, ''ghost'')])"









section \<open>Store lemmas\<close>

lemma andThen_Inr [simp]: "andThen (Inr a, d) f = f a d"
  by (simp add: andThen_def)

lemma andThen_Inl [simp]: "andThen (Inl e, d) f = (Inl e, d)"
  by (simp add: andThen_def)

lemma lookup_cmd_DEL:
  "lookup (snd (cmd_DEL d now ks)) now' k = (if k \<in> set ks then None else lookup d now' k)"
  by (induction ks arbitrary: d) (auto simp: Let_def lookup_def remove_def delete_conv')

lemma del_reply: "del d now ks = (Inr (fst (cmd_DEL d now ks)), snd (cmd_DEL d now ks))"
  by (cases ks) (simp_all add: del_def Let_def)

lemma lookup_store:
  "lookup (store k e d) now k' = (if k' = k then (if expired e now then None else Some e) else lookup d now k')"
  by (simp add: lookup_def store_def update_conv')

lemma lookup_remove:
  "lookup (remove k d) now k' = (if k' = k then None else lookup d now k')"
  by (simp add: lookup_def remove_def delete_conv')

lemma prefix_of_ends_colon: "prefix_of ns \<noteq> [] \<and> last (prefix_of ns) = CHR '':''"
  by (simp add: prefix_of_def)

lemma addPrefix_inject: "addPrefix ns k = addPrefix ns k' \<longleftrightarrow> k = k'"
  by (simp add: addPrefix_def)

lemma addPrefix_same_key: "addPrefix nsA k = addPrefix nsB k \<longleftrightarrow> prefix_of nsA = prefix_of nsB"
  by (simp add: addPrefix_def)

lemma get_frame:
  "fst (get d now k) = fst (get d' now k)" if "lookup d now k = lookup d' now k"
  using that by (simp add: get_def split: option.splits entry.splits rvalue.splits)

section \<open>Decimal text\<close>

lemma digit_roundtrip: "d < 10 \<Longrightarrow> digit_of_char (char_of_digit d) = Some d"
proof -
  assume "d < 10"
  then have "d \<in> {0, 1, 2, 3, 4, 5, 6, 7, 8, 9}" by auto
  then show ?thesis
    by (auto simp: digit_of_char_def char_of_digit_def)
qed

lemma parse_digits_snoc:
  "parse_digits acc (xs @ [c]) =
     (case parse_digits acc xs of
        None \<Rightarrow> None
      | Some a \<Rightarrow> (case digit_of_char c of None \<Rightarrow> None | Some v \<Rightarrow> Some (a * 10 + v)))"
  by (induction xs arbitrary: acc) (auto split: option.splits)

lemma parse_digits_show_nat: "parse_digits 0 (show_nat n) = Some n"
proof (induction n rule: show_nat.induct)
  case (1 n)
  show ?case
  proof (cases "n < 10")
    case True
    then show ?thesis
      by (subst show_nat.simps) (simp add: digit_roundtrip)
  next
    case False
    then have ih: "parse_digits 0 (show_nat (n div 10)) = Some (n div 10)"
      using "1.IH" by simp
    have "n mod 10 < 10" by simp
    then have dg: "digit_of_char (char_of_digit (n mod 10)) = Some (n mod 10)"
      by (rule digit_roundtrip)
    show ?thesis
      using False by (subst show_nat.simps) (simp add: parse_digits_snoc ih dg)
  qed
qed

lemma show_nat_nonempty: "show_nat n \<noteq> []"
  by (subst show_nat.simps) simp

lemma minus_not_digit: "digit_of_char CHR ''-'' = None"
  by (simp add: digit_of_char_def)

lemma show_nat_hd: "hd (show_nat n) \<noteq> CHR ''-''"
proof -
  obtain c cs where cs: "show_nat n = c # cs"
    using show_nat_nonempty [of n] by (cases "show_nat n") auto
  have "parse_digits 0 (c # cs) = Some n"
    using parse_digits_show_nat [of n] cs by simp
  then have "digit_of_char c \<noteq> None"
    by (auto split: option.splits)
  then have "c \<noteq> CHR ''-''"
    using minus_not_digit by auto
  then show ?thesis using cs by simp
qed

lemma parse_loose_show_int: "parse_loose (show_int i) = Some i"
proof (cases "i < 0")
  case True
  then show ?thesis
    by (simp add: parse_loose_def show_int_def show_nat_nonempty parse_digits_show_nat)
next
  case False
  obtain c cs where cs: "show_nat (nat i) = c # cs"
    using show_nat_nonempty [of "nat i"] by (cases "show_nat (nat i)") auto
  have "c \<noteq> CHR ''-''"
    using show_nat_hd [of "nat i"] cs by simp
  then show ?thesis
    using False cs parse_digits_show_nat [of "nat i"]
    by (simp add: parse_loose_def show_int_def)
qed

lemma parse_int_show_int [simp]: "parse_int (show_int i) = Some i"
  by (simp add: parse_int_def parse_loose_show_int)

section \<open>More store lemmas\<close>

lemma map_of_store: "map_of (store k e d) k' = (if k' = k then Some e else map_of d k')"
  by (simp add: store_def update_conv')

lemma lookup_live:
  "map_of d k = Some (Entry v (Some x)) \<Longrightarrow> t \<le> x \<Longrightarrow> lookup d t k = Some (Entry v (Some x))"
  by (simp add: lookup_def expired_def)


section \<open>Namespace isolation\<close>

lemma set_frame:
  "k' \<noteq> k \<Longrightarrow> lookup (snd (set_value d now k v opts)) now' k' = lookup d now' k'"
  by (simp add: set_value_def cmd_SET_def lookup_store Let_def split: option.splits)

lemma addPrefix_overlap:
  assumes "addPrefix nsB k' = addPrefix nsA k"
  shows "prefix (prefix_of nsA) (prefix_of nsB) \<or> prefix (prefix_of nsB) (prefix_of nsA)"
proof -
  have "prefix_of nsB @ k' = prefix_of nsA @ k"
    using assms by (simp add: addPrefix_def)
  then obtain us where "prefix_of nsB = prefix_of nsA @ us \<or> prefix_of nsB @ us = prefix_of nsA"
    by (auto simp: append_eq_append_conv2)
  then show ?thesis
    by (metis prefixI)
qed

text \<open>
  C3 (as amended). Two namespaces isolate a key from each other when their normalised
  prefixes differ: after \<open>nsA.set(k, v)\<close>, \<open>nsB.get(k)\<close> replies what it replied before, so a
  key that \<open>nsB\<close> did not have is still not found. When neither normalised prefix is a
  prefix of the other, no key of \<open>nsB\<close> is touched by a write through \<open>nsA\<close>. The
  normalisation appends a colon only when the namespace does not already end in one, so
  the distinct namespace strings \<open>a\<close> and \<open>a:\<close> name the same prefix and are not isolated.
\<close>

theorem C3_namespace_isolation:
  "(prefix_of nsA \<noteq> prefix_of nsB \<longrightarrow>
      fst (ns_get nsB (snd (ns_set nsA d now k v opts)) now k) = fst (ns_get nsB d now k))
   \<and> (\<not> prefix (prefix_of nsA) (prefix_of nsB) \<and> \<not> prefix (prefix_of nsB) (prefix_of nsA) \<longrightarrow>
      (\<forall>k'. fst (ns_get nsB (snd (ns_set nsA d now k v opts)) now k') = fst (ns_get nsB d now k')))"
proof -
  have same: "fst (ns_get nsB (snd (ns_set nsA d now k v opts)) now k) = fst (ns_get nsB d now k)"
    if "prefix_of nsA \<noteq> prefix_of nsB"
  proof -
    have "addPrefix nsB k \<noteq> addPrefix nsA k"
      using that by (simp add: addPrefix_same_key)
    then have "lookup (snd (ns_set nsA d now k v opts)) now (addPrefix nsB k) = lookup d now (addPrefix nsB k)"
      unfolding ns_set_def by (rule set_frame)
    then show ?thesis
      unfolding ns_get_def by (rule get_frame)
  qed
  have any: "fst (ns_get nsB (snd (ns_set nsA d now k v opts)) now k') = fst (ns_get nsB d now k')"
    if "\<not> prefix (prefix_of nsA) (prefix_of nsB)" "\<not> prefix (prefix_of nsB) (prefix_of nsA)" for k'
  proof -
    have "addPrefix nsB k' \<noteq> addPrefix nsA k"
      using that addPrefix_overlap [of nsB k' nsA k] by blast
    then have "lookup (snd (ns_set nsA d now k v opts)) now (addPrefix nsB k') = lookup d now (addPrefix nsB k')"
      unfolding ns_set_def by (rule set_frame)
    then show ?thesis
      unfolding ns_get_def by (rule get_frame)
  qed
  show ?thesis
    using same any by blast
qed

theorem C3_namespace_isolation_witness:
  "fst (ns_get ''shop'' (snd (ns_set ''auth'' [] 0 ''user:123'' ''auth-data'' None)) 0 ''user:123'') = Inr None
   \<and> fst (ns_get ''shop'' (snd (ns_set ''auth'' [] 0 ''user:123'' ''auth-data'' None)) 0 ''cart'') = Inr None"
proof -
  have h1: "prefix_of ''auth'' \<noteq> prefix_of ''shop''"
    by (simp add: prefix_of_def)
  have h2: "\<not> prefix (prefix_of ''auth'') (prefix_of ''shop'') \<and> \<not> prefix (prefix_of ''shop'') (prefix_of ''auth'')"
    by (simp add: prefix_of_def)
  have e: "fst (ns_get ''shop'' [] 0 k') = Inr None" for k'
    by (simp add: ns_get_def get_def lookup_def)
  note T = C3_namespace_isolation [where nsA = "''auth''" and nsB = "''shop''" and d = "[]" and now = 0
      and k = "''user:123''" and v = "''auth-data''" and opts = None]
  from T [THEN conjunct1, THEN mp, OF h1] T [THEN conjunct2, THEN mp, OF h2, THEN spec, of "''cart''"]
  show ?thesis by (simp add: e)
qed

theorem C3_counterexample:
  "''a'' \<noteq> ''a:''
   \<and> fst (ns_get ''a:'' [] 0 ''k'') = Inr None
   \<and> fst (ns_get ''a:'' (snd (ns_set ''a'' [] 0 ''k'' ''v'' None)) 0 ''k'') = Inr (Some ''v'')"
  by (simp add: ns_get_def ns_set_def get_def set_value_def cmd_SET_def noOptions_def
      addPrefix_def prefix_of_def lookup_def store_def expired_def)

section \<open>Rate limiter: reset\<close>

lemma reset_keys_lookup:
  "lookup (snd (reset_keys d now ps)) now' k =
     (if k \<in> set (map (addPrefix limiter_namespace) ps) then None else lookup d now' k)"
proof (induction ps arbitrary: d)
  case Nil
  show ?case by simp
next
  case (Cons p ps)
  show ?case
    by (simp add: ns_del_def del_reply Cons.IH lookup_cmd_DEL lookup_remove)
qed

lemma checkTokenBucket_frame:
  assumes "lookup d now (addPrefix limiter_namespace (''bucket:'' @ identifier))
         = lookup d' now (addPrefix limiter_namespace (''bucket:'' @ identifier))"
  shows "fst (checkTokenBucket c d now identifier cap rate)
       = fst (checkTokenBucket c d' now identifier cap rate)"
  using assms
  by (simp add: checkTokenBucket_def ns_get_def ns_set_def get_def set_value_def cmd_SET_def
      noOptions_def Let_def split: option.splits entry.splits rvalue.splits)

text \<open>
  C4. \<open>reset(identifier, "token-bucket")\<close> deletes the key \<open>token-bucket:<identifier>\<close>,
  while the token-bucket record lives under \<open>bucket:<identifier>\<close>: the record stays as
  it was, and the next token-bucket check answers as if no reset had happened. The
  default path (no algorithm given) does delete \<open>bucket:<identifier>\<close>, and
  \<open>reset(identifier, "fixed")\<close> deletes the fixed-window counter.
\<close>

theorem C4_reset_token_bucket_keeps_record:
  "lookup (snd (reset d now identifier (Some TokenBucket))) now'
       (addPrefix limiter_namespace (''bucket:'' @ identifier))
     = lookup d now' (addPrefix limiter_namespace (''bucket:'' @ identifier))
   \<and> fst (checkTokenBucket c (snd (reset d now identifier (Some TokenBucket))) now' identifier cap rate)
     = fst (checkTokenBucket c d now' identifier cap rate)
   \<and> lookup (snd (reset d now identifier None)) now'
       (addPrefix limiter_namespace (''bucket:'' @ identifier)) = None
   \<and> lookup (snd (reset d now identifier (Some Fixed))) now'
       (addPrefix limiter_namespace (''fixed:'' @ identifier)) = None"
proof -
  have kept: "lookup (snd (reset d now identifier (Some TokenBucket))) now'
       (addPrefix limiter_namespace (''bucket:'' @ identifier))
     = lookup d now' (addPrefix limiter_namespace (''bucket:'' @ identifier))"
    by (simp add: reset_def reset_keys_lookup addPrefix_def del: reset_keys.simps)
  have same: "fst (checkTokenBucket c (snd (reset d now identifier (Some TokenBucket))) now' identifier cap rate)
     = fst (checkTokenBucket c d now' identifier cap rate)"
    by (rule checkTokenBucket_frame) (rule kept)
  have all: "lookup (snd (reset d now identifier None)) now'
       (addPrefix limiter_namespace (''bucket:'' @ identifier)) = None"
    by (simp add: reset_def reset_keys_lookup del: reset_keys.simps)
  have fixed: "lookup (snd (reset d now identifier (Some Fixed))) now'
       (addPrefix limiter_namespace (''fixed:'' @ identifier)) = None"
    by (simp add: reset_def reset_keys_lookup del: reset_keys.simps)
  from kept same all fixed show ?thesis by blast
qed

section \<open>Rate limiter: fixed window\<close>

lemma ttl_fresh: "0 < (w::int) \<Longrightarrow> (w * 1000 + 500) div 1000 = w"
  by simp

lemma checkFixedWindow_first:
  assumes "lookup d t (addPrefix limiter_namespace (''fixed:'' @ identifier)) = None" and "0 < w"
  shows "checkFixedWindow d t identifier m w =
     (Inr \<lparr>allowed = (1 \<le> m), remaining = of_int (max 0 (m - 1)), limit = of_int m,
           resetAt = of_int (t + w * 1000),
           retryAfter = (if 1 \<le> m then None else Some (of_int w))\<rparr>,
      store (addPrefix limiter_namespace (''fixed:'' @ identifier))
        (Entry (Str (show_int 1)) (Some (t + w * 1000)))
        (store (addPrefix limiter_namespace (''fixed:'' @ identifier)) (Entry (Str (show_int 1)) None) d))"
  using assms
  by (simp add: checkFixedWindow_def ns_incr_def incr_def ns_expire_def expire_def ns_ttl_def ttl_def
      lookup_store expired_def Let_def)

lemma checkFixedWindow_later:
  assumes "lookup d t (addPrefix limiter_namespace (''fixed:'' @ identifier))
             = Some (Entry (Str (show_int n)) (Some x))"
    and "1 \<le> n" and "n < int64_max"
  shows "checkFixedWindow d t identifier m w =
     (Inr \<lparr>allowed = (n + 1 \<le> m), remaining = of_int (max 0 (m - (n + 1))), limit = of_int m,
           resetAt = of_int (t + ((x - t + 500) div 1000) * 1000),
           retryAfter = (if n + 1 \<le> m then None else Some (of_int ((x - t + 500) div 1000)))\<rparr>,
      store (addPrefix limiter_namespace (''fixed:'' @ identifier))
        (Entry (Str (show_int (n + 1))) (Some x)) d)"
proof -
  have live: "\<not> expired (Entry (Str (show_int (n + 1))) (Some x)) t"
    using assms(1) by (auto simp: lookup_def expired_def split: option.splits if_splits)
  have "int64_min \<le> n" using assms(2) by (simp add: int64_min_def)
  then show ?thesis
    using assms live
    by (simp add: checkFixedWindow_def ns_incr_def incr_def ns_expire_def expire_def ns_ttl_def ttl_def
      lookup_store Let_def)
qed

lemma fixed_window_run_later:
  assumes "map_of d (addPrefix limiter_namespace (''fixed:'' @ identifier))
             = Some (Entry (Str (show_int n)) (Some x))"
    and "\<forall>t\<in>set ts. t \<le> x" and "1 \<le> n" and "n + int (length ts) \<le> int64_max"
    and "i < length ts"
  shows "fst (fixed_window_run d ts identifier m w) ! i =
     Inr \<lparr>allowed = (n + int i + 1 \<le> m),
          remaining = of_int (max 0 (m - (n + int i + 1))),
          limit = of_int m,
          resetAt = of_int (ts ! i + ((x - ts ! i + 500) div 1000) * 1000),
          retryAfter = (if n + int i + 1 \<le> m then None
                        else Some (of_int ((x - ts ! i + 500) div 1000)))\<rparr>"
  using assms
proof (induction ts arbitrary: d n i)
  case Nil
  then show ?case by simp
next
  case (Cons t ts)
  let ?k = "addPrefix limiter_namespace (''fixed:'' @ identifier)"
  have live: "lookup d t ?k = Some (Entry (Str (show_int n)) (Some x))"
    using Cons.prems(1,2) by (simp add: lookup_live)
  have n_lt: "n < int64_max" using Cons.prems(4) by simp
  note step = checkFixedWindow_later [OF live Cons.prems(3) n_lt, of m w]
  show ?case
  proof (cases i)
    case 0
    then show ?thesis by (simp add: step Let_def)
  next
    case (Suc j)
    have d1: "map_of (store ?k (Entry (Str (show_int (n + 1))) (Some x)) d) ?k
                = Some (Entry (Str (show_int (n + 1))) (Some x))"
      by (simp add: map_of_store)
    have "fst (fixed_window_run (store ?k (Entry (Str (show_int (n + 1))) (Some x)) d) ts identifier m w) ! j =
       Inr \<lparr>allowed = (n + 1 + int j + 1 \<le> m),
          remaining = of_int (max 0 (m - (n + 1 + int j + 1))),
          limit = of_int m,
          resetAt = of_int (ts ! j + ((x - ts ! j + 500) div 1000) * 1000),
          retryAfter = (if n + 1 + int j + 1 \<le> m then None
                        else Some (of_int ((x - ts ! j + 500) div 1000)))\<rparr>"
      using Cons.prems Suc by (intro Cons.IH [OF d1]) auto
    then show ?thesis
      using Suc by (simp add: step Let_def add.commute add.left_commute)
  qed
qed

lemma checkFixedWindow_count:
  assumes "ns_incr limiter_namespace d now (''fixed:'' @ identifier) = (Inr count, d1)"
  shows "\<exists>r. fst (checkFixedWindow d now identifier m w) = Inr r
             \<and> allowed r = (count \<le> m) \<and> remaining r = of_int (max 0 (m - count))"
proof -
  define key where "key = ''fixed:'' @ identifier"
  have inc: "ns_incr limiter_namespace d now key = (Inr count, d1)"
    using assms by (simp add: key_def)
  have "\<exists>x d2. (if count = 1 then ns_expire limiter_namespace d1 now key w else (Inr 0, d1)) = (Inr x, d2)"
    by (auto simp: ns_expire_def expire_def split: option.splits)
  then obtain x d2 where
    ex: "(if count = 1 then ns_expire limiter_namespace d1 now key w else (Inr 0, d1)) = (Inr x, d2)"
    by blast
  have "\<exists>y d3. ns_ttl limiter_namespace d2 now key = (Inr y, d3)"
    by (auto simp: ns_ttl_def ttl_def split: option.splits)
  then obtain y d3 where tt: "ns_ttl limiter_namespace d2 now key = (Inr y, d3)"
    by blast
  have "fst (checkFixedWindow d now identifier m w) =
      Inr \<lparr>allowed = (count \<le> m), remaining = of_int (max 0 (m - count)), limit = of_int m,
           resetAt = of_int (now + y * 1000),
           retryAfter = (if count \<le> m then None else Some (of_int y))\<rparr>"
    unfolding checkFixedWindow_def Let_def key_def [symmetric]
    by (simp only: inc ex tt andThen_Inr fst_conv)
  then show ?thesis by simp
qed

text \<open>
  C5 (as amended). With \<open>maxRequests = N\<close> and a counter that does not exist yet, \<open>N + 1\<close>
  checks of one identifier, none later than the end of the window opened by the first:
  call number \<open>i + 1\<close> has \<open>allowed = (i + 1 \<le> N)\<close> and \<open>remaining = max 0 (N - (i + 1))\<close>,
  so the first \<open>N\<close> calls are allowed and call \<open>N + 1\<close> is denied. The denied call carries
  \<open>retryAfter\<close> = the store's TTL reply, the rest of the window rounded to the nearest
  second: it is positive exactly when at least 500 ms of the window remain. In any state,
  a check whose increment replies \<open>count\<close> has \<open>allowed = (count \<le> maxRequests)\<close> and
  \<open>remaining = max 0 (maxRequests - count)\<close>.
\<close>

theorem C5_fixed_window_sequence:
  assumes "0 \<le> N" and "N < int64_max" and "0 < W"
    and "lookup d t0 (addPrefix limiter_namespace (''fixed:'' @ identifier)) = None"
    and "length ts = nat N"
    and "\<forall>t\<in>set ts. t \<le> t0 + W * 1000"
  shows "(\<forall>i\<le>nat N. \<exists>r. fst (fixed_window_run d (t0 # ts) identifier N W) ! i = Inr r
            \<and> allowed r = (int i + 1 \<le> N)
            \<and> remaining r = of_int (max 0 (N - (int i + 1)))
            \<and> retryAfter r = (if int i + 1 \<le> N then None
                 else Some (of_int ((t0 + W * 1000 - (t0 # ts) ! i + 500) div 1000))))
       \<and> ((0 < (t0 + W * 1000 - (t0 # ts) ! nat N + 500) div 1000)
            = ((t0 # ts) ! nat N + 500 \<le> t0 + W * 1000))
       \<and> (\<forall>d' now count d1 m w.
             ns_incr limiter_namespace d' now (''fixed:'' @ identifier) = (Inr count, d1) \<longrightarrow>
             (\<exists>r. fst (checkFixedWindow d' now identifier m w) = Inr r
                \<and> allowed r = (count \<le> m) \<and> remaining r = of_int (max 0 (m - count))))"
proof -
  let ?k = "addPrefix limiter_namespace (''fixed:'' @ identifier)"
  let ?x = "t0 + W * 1000"
  let ?d1 = "store ?k (Entry (Str (show_int 1)) (Some ?x)) (store ?k (Entry (Str (show_int 1)) None) d)"
  note first = checkFixedWindow_first [OF assms(4) assms(3), of N]
  have d1: "map_of ?d1 ?k = Some (Entry (Str (show_int 1)) (Some ?x))"
    by (simp add: map_of_store)
  have bound: "1 + int (length ts) \<le> int64_max"
    using assms(1,2,5) by simp
  have seq: "\<exists>r. fst (fixed_window_run d (t0 # ts) identifier N W) ! i = Inr r
            \<and> allowed r = (int i + 1 \<le> N)
            \<and> remaining r = of_int (max 0 (N - (int i + 1)))
            \<and> retryAfter r = (if int i + 1 \<le> N then None
                 else Some (of_int ((?x - (t0 # ts) ! i + 500) div 1000)))"
    if "i \<le> nat N" for i
  proof (cases i)
    case 0
    then show ?thesis
      using assms(3) by (simp add: first Let_def)
  next
    case (Suc j)
    then have j: "j < length ts"
      using that assms(5) by simp
    have "fst (fixed_window_run ?d1 ts identifier N W) ! j =
       Inr \<lparr>allowed = (1 + int j + 1 \<le> N),
          remaining = of_int (max 0 (N - (1 + int j + 1))),
          limit = of_int N,
          resetAt = of_int (ts ! j + ((?x - ts ! j + 500) div 1000) * 1000),
          retryAfter = (if 1 + int j + 1 \<le> N then None
                        else Some (of_int ((?x - ts ! j + 500) div 1000)))\<rparr>"
      by (rule fixed_window_run_later [OF d1 assms(6) _ bound j]) simp
    then show ?thesis
      using Suc by (simp add: first Let_def add.commute)
  qed
  have pos: "(0 < (?x - (t0 # ts) ! nat N + 500) div 1000) = ((t0 # ts) ! nat N + 500 \<le> ?x)"
    using pos_imp_zdiv_pos_iff [of 1000 "?x - (t0 # ts) ! nat N + 500"] by auto
  show ?thesis
    using seq pos checkFixedWindow_count by blast
qed

theorem C5_fixed_window_sequence_witness:
  "\<exists>r. fst (fixed_window_run [] [0, 100, 400] ''u'' 2 1) ! 2 = Inr r
      \<and> allowed r = False \<and> remaining r = 0 \<and> retryAfter r = Some 1"
proof -
  have h1: "(0::int) \<le> 2" and h2: "(2::int) < int64_max" and h3: "(0::int) < 1"
    by (simp_all add: int64_max_def)
  have h4: "lookup [] 0 (addPrefix limiter_namespace (''fixed:'' @ ''u'')) = None"
    by (simp add: lookup_def)
  have h5: "length [100, 400 :: int] = nat 2" by simp
  have h6: "\<forall>t\<in>set [100, 400 :: int]. t \<le> 0 + 1 * 1000" by simp
  have h7: "2 \<le> nat (2::int)" by simp
  from C5_fixed_window_sequence [OF h1 h2 h3 h4 h5 h6]
  have "\<forall>i\<le>nat 2. \<exists>r. fst (fixed_window_run [] (0 # [100, 400]) ''u'' 2 1) ! i = Inr r
            \<and> allowed r = (int i + 1 \<le> 2)
            \<and> remaining r = of_int (max 0 (2 - (int i + 1)))
            \<and> retryAfter r = (if int i + 1 \<le> (2::int) then None
                 else Some (of_int ((0 + 1 * 1000 - (0 # [100, 400]) ! i + 500) div 1000)))"
    by blast
  from this [rule_format, OF h7] show ?thesis by simp
qed

theorem C5_counterexample:
  "fst (fixed_window_run [] [0, 600] ''u'' 1 1) =
     [Inr \<lparr>allowed = True, remaining = 0, limit = 1, resetAt = 1000, retryAfter = None\<rparr>,
      Inr \<lparr>allowed = False, remaining = 0, limit = 1, resetAt = 600, retryAfter = Some 0\<rparr>]"
  by (simp add: checkFixedWindow_def ns_incr_def incr_def ns_expire_def expire_def ns_ttl_def ttl_def
      lookup_store lookup_def expired_def Let_def addPrefix_def prefix_of_def limiter_namespace_def
      int64_max_def int64_min_def show_int_def show_nat.simps char_of_digit_def map_of_store
      parse_int_def parse_loose_def digit_of_char_def)

section \<open>Cache: counters and statistics\<close>

lemma show_nat_digits: "\<forall>c\<in>set (show_nat n). digit_of_char c \<noteq> None"
proof (induction n rule: show_nat.induct)
  case (1 n)
  show ?case
  proof (cases "n < 10")
    case True
    then show ?thesis
      by (subst show_nat.simps) (simp add: digit_roundtrip)
  next
    case False
    have "n mod 10 < 10" by simp
    then have "digit_of_char (char_of_digit (n mod 10)) = Some (n mod 10)"
      by (rule digit_roundtrip)
    then show ?thesis
      using False "1.IH" by (subst show_nat.simps) simp
  qed
qed

lemma digits_value_parse_digits:
  "\<forall>c\<in>set s. digit_of_char c \<noteq> None \<Longrightarrow>
     parse_digits acc s = Some (digits_value 10 digit_of_char acc s)"
  by (induction s arbitrary: acc) (auto split: option.splits)

lemma digit_plain:
  assumes "digit_of_char c \<noteq> None"
  shows "\<not> js_space c" and "c \<noteq> CHR ''-''" and "c \<noteq> CHR ''+''" and "c \<noteq> CHR ''x''" and "c \<noteq> CHR ''X''"
  using assms by (auto simp: digit_of_char_def js_space_def Let_def split: if_splits)

lemma parseInt_show_nat: "parseInt (show_nat n) = Some (int n)"
proof -
  obtain c cs where cs: "show_nat n = c # cs"
    using show_nat_nonempty [of n] by (cases "show_nat n") auto
  have dg: "\<forall>x\<in>set (c # cs). digit_of_char x \<noteq> None"
    using show_nat_digits [of n] cs by simp
  then have c: "digit_of_char c \<noteq> None" by simp
  have nohex: "take 2 (c # cs) \<noteq> ''0x'' \<and> take 2 (c # cs) \<noteq> ''0X''"
  proof (cases cs)
    case Nil
    then show ?thesis by simp
  next
    case (Cons b bs)
    then have "digit_of_char b \<noteq> None" using dg by simp
    then have "b \<noteq> CHR ''x'' \<and> b \<noteq> CHR ''X''" using digit_plain by blast
    then show ?thesis using Cons by (simp add: numeral_2_eq_2)
  qed
  have val: "digits_value 10 digit_of_char 0 (c # cs) = n"
    using digits_value_parse_digits [OF dg, of 0] parse_digits_show_nat [of n] cs by simp
  show ?thesis
    unfolding parseInt_def cs Let_def
    using digit_plain [OF c] nohex c val
    by (simp add: parse_prefix_def del: digits_value.simps take_Cons_numeral)
qed

lemma parseInt_show_int: "0 \<le> n \<Longrightarrow> parseInt (show_int n) = Some n"
  by (simp add: show_int_def parseInt_show_nat)

lemma lookup_counter:
  "counter_at d k n \<Longrightarrow>
     lookup d now k = (case map_of d k of None \<Rightarrow> None | Some _ \<Rightarrow> Some (Entry (Str (show_int n)) None))"
  by (auto simp: counter_at_def lookup_def expired_def split: option.splits)

lemma show_int_nonempty: "show_int n \<noteq> []"
  by (simp add: show_int_def show_nat_nonempty)

lemma parseInt_zero: "parseInt ''0'' = Some 0"
  by (simp add: parseInt_def parse_prefix_def digit_of_char_def js_space_def Let_def)

lemma get_counter:
  assumes "counter_at d k n" and "0 \<le> n"
  shows "\<exists>r. get d now k = (Inr r, d) \<and> parseInt (or_zero r) = Some n"
proof (cases "map_of d k")
  case None
  then have "n = 0" using assms(1) by (simp add: counter_at_def)
  then show ?thesis
    using None by (simp add: get_def lookup_def or_zero_def parseInt_zero)
next
  case (Some e)
  then have "lookup d now k = Some (Entry (Str (show_int n)) None)"
    using lookup_counter [OF assms(1), of now] by simp
  then show ?thesis
    using assms(2) by (simp add: get_def or_zero_def show_int_nonempty parseInt_show_int)
qed

lemma counter_at_store_other:
  "k' \<noteq> k \<Longrightarrow> counter_at (store k e d) k' n = counter_at d k' n"
  by (simp add: counter_at_def map_of_store)

lemma show_int_one: "show_int 1 = show_int (0 + 1)"
  by simp

lemma incr_counter:
  assumes "counter_at d k n" and "n < int64_max"
  shows "incr d now k = (Inr (n + 1), store k (Entry (Str (show_int (n + 1))) None) d)"
    and "counter_at (store k (Entry (Str (show_int (n + 1))) None) d) k (n + 1)"
proof -
  show "incr d now k = (Inr (n + 1), store k (Entry (Str (show_int (n + 1))) None) d)"
  proof (cases "map_of d k")
    case None
    then have "n = 0" using assms(1) by (simp add: counter_at_def)
    then show ?thesis
      using None by (simp add: incr_def lookup_def)
  next
    case (Some e)
    then have "lookup d now k = Some (Entry (Str (show_int n)) None)"
      using lookup_counter [OF assms(1), of now] by simp
    then show ?thesis
      using assms by (simp add: incr_def counter_at_def)
  qed
  show "counter_at (store k (Entry (Str (show_int (n + 1))) None) d) k (n + 1)"
    using assms by (simp add: counter_at_def map_of_store)
qed

lemma incr_counter_Inr:
  assumes "counter_at d k n" and "incr d now k = (Inr x, d1)"
  shows "n < int64_max"
proof (rule ccontr)
  assume "\<not> n < int64_max"
  then have n: "n = int64_max" using assms(1) by (simp add: counter_at_def)
  then have "map_of d k \<noteq> None"
    using assms(1) by (cases "map_of d k") (auto simp: counter_at_def int64_max_def)
  then have "lookup d now k = Some (Entry (Str (show_int n)) None)"
    using lookup_counter [OF assms(1), of now] by auto
  then have "fst (incr d now k) = Inl IncrOverflow"
    using n by (simp add: incr_def int64_max_def int64_min_def)
  then show False using assms(2) by simp
qed

lemma getStats_counters:
  assumes "counter_at d (statsKey @ '':hits'') h" and "counter_at d (statsKey @ '':misses'') m"
    and "0 \<le> h" and "0 \<le> m"
  shows "\<exists>n. getStats glob ns d now =
           (Inr \<lparr>hits = Some h, misses = Some m,
                 hitRate = of_int (math_round ((if h + m > 0 then (of_int h / of_int (h + m)) * 100 else 0) * 100)) / 100,
                 totalKeys = n\<rparr>, d)"
proof -
  obtain r1 where r1: "get d now (statsKey @ '':hits'') = (Inr r1, d)" "parseInt (or_zero r1) = Some h"
    using get_counter [OF assms(1,3)] by blast
  obtain r2 where r2: "get d now (statsKey @ '':misses'') = (Inr r2, d)" "parseInt (or_zero r2) = Some m"
    using get_counter [OF assms(2,4)] by blast
  show ?thesis
    unfolding getStats_def
    by (simp only: r1 r2 andThen_Inr Let_def scanAll_def) simp
qed

lemma getJSON_snd: "snd (getJSON c d now k) = d"
  by (simp add: getJSON_def get_def andThen_def split: option.splits entry.splits rvalue.splits)

lemma getJSON_eq: "fst (getJSON c d now k) = r \<Longrightarrow> getJSON c d now k = (r, d)"
  using getJSON_snd [of c d now k] by (cases "getJSON c d now k") simp

lemma stats_keys_differ: "statsKey @ '':hits'' \<noteq> statsKey @ '':misses''"
  by simp





lemmas eval_defs =
  getOrSet_def getJSON_def setJSON_def get_def set_value_def cmd_SET_def noOptions_def
  incrementHits_def incrementMisses_def incr_def getKey_def statsKey_def ttl_or_default_def
  lookup_def store_def expired_def Let_def json_text_def quote_def read_quoted_def
  name_loader_def show_int_def show_nat.simps char_of_digit_def parse_int_def parse_loose_def
  digit_of_char_def int64_max_def int64_min_def andThen_def






lemma p1: "parseInt (or_zero (Some ''1'')) = Some 1" "parseInt (or_zero (Some ''2'')) = Some 2"
  by (simp_all add: or_zero_def parseInt_def parse_prefix_def digit_of_char_def js_space_def Let_def)




lemma getStats_namespace_free:
  "map_sum id (\<lambda>st. (hits st, misses st, hitRate st)) (fst (getStats glob nsA d now))
   = map_sum id (\<lambda>st. (hits st, misses st, hitRate st)) (fst (getStats glob nsB d now))"
  by (simp add: getStats_def andThen_def scanAll_def Let_def split: prod.splits sum.splits)



lemma counter_empty: "counter_at [] k 0"
  by (simp add: counter_at_def int64_min_def int64_max_def)


lemma incrementHits_Inr:
  assumes "counter_at d (statsKey @ '':hits'') h" and "incrementHits d now = (Inr u, d1)"
  shows "d1 = store (statsKey @ '':hits'') (Entry (Str (show_int (h + 1))) None) d"
proof -
  obtain r di where i: "incr d now (statsKey @ '':hits'') = (r, di)"
    by (cases "incr d now (statsKey @ '':hits'')") auto
  then obtain x where r: "r = Inr x"
    using assms(2) by (cases r) (auto simp: incrementHits_def)
  have "h < int64_max"
    using incr_counter_Inr [OF assms(1)] i r by blast
  from incr_counter(1) [OF assms(1) this, of now] show ?thesis
    using assms(2) by (simp add: incrementHits_def)
qed

lemma incrementMisses_Inr:
  assumes "counter_at d (statsKey @ '':misses'') m" and "incrementMisses d now = (Inr u, d1)"
  shows "d1 = store (statsKey @ '':misses'') (Entry (Str (show_int (m + 1))) None) d"
proof -
  obtain r di where i: "incr d now (statsKey @ '':misses'') = (r, di)"
    by (cases "incr d now (statsKey @ '':misses'')") auto
  then obtain x where r: "r = Inr x"
    using assms(2) by (cases r) (auto simp: incrementMisses_def)
  have "m < int64_max"
    using incr_counter_Inr [OF assms(1)] i r by blast
  from incr_counter(1) [OF assms(1) this, of now] show ?thesis
    using assms(2) by (simp add: incrementMisses_def)
qed

lemma counter_stats:
  assumes "counter_at d (statsKey @ '':hits'') h" and "counter_at d (statsKey @ '':misses'') m"
    and "0 \<le> h" and "0 \<le> m"
  shows "\<exists>st. fst (getStats glob ns d now) = Inr st \<and> hits st = Some h \<and> misses st = Some m"
  using getStats_counters [OF assms, of glob ns now] by auto

lemma bumped_hits:
  assumes "counter_at d (statsKey @ '':hits'') h" and "counter_at d (statsKey @ '':misses'') m"
    and "0 \<le> h" and "0 \<le> m" and "h < int64_max"
  shows "\<exists>st. fst (getStats glob ns (store (statsKey @ '':hits'') (Entry (Str (show_int (h + 1))) None) d) now) = Inr st
            \<and> hits st = Some (h + 1) \<and> misses st = Some m"
proof (rule counter_stats)
  show "counter_at (store (statsKey @ '':hits'') (Entry (Str (show_int (h + 1))) None) d) (statsKey @ '':hits'') (h + 1)"
    by (rule incr_counter(2) [OF assms(1,5)])
  show "counter_at (store (statsKey @ '':hits'') (Entry (Str (show_int (h + 1))) None) d) (statsKey @ '':misses'') m"
    using assms(2) by (simp add: counter_at_store_other)
qed (use assms in auto)

lemma bumped_misses:
  assumes "counter_at d (statsKey @ '':hits'') h" and "counter_at d (statsKey @ '':misses'') m"
    and "0 \<le> h" and "0 \<le> m" and "m < int64_max"
  shows "\<exists>st. fst (getStats glob ns (store (statsKey @ '':misses'') (Entry (Str (show_int (m + 1))) None) d) now) = Inr st
            \<and> hits st = Some h \<and> misses st = Some (m + 1)"
proof (rule counter_stats)
  show "counter_at (store (statsKey @ '':misses'') (Entry (Str (show_int (m + 1))) None) d) (statsKey @ '':misses'') (m + 1)"
    by (rule incr_counter(2) [OF assms(2,5)])
  show "counter_at (store (statsKey @ '':misses'') (Entry (Str (show_int (m + 1))) None) d) (statsKey @ '':hits'') h"
    using assms(1) by (simp add: counter_at_store_other)
qed (use assms in auto)

lemma counter_bound: "counter_at d k n \<Longrightarrow> n = int64_max \<or> n < int64_max"
  by (auto simp: counter_at_def)

lemma cache_get_stats:
  assumes "counter_at d (statsKey @ '':hits'') h" and "counter_at d (statsKey @ '':misses'') m"
    and "0 \<le> h" and "0 \<le> m"
    and "cache_get c nsA d now key = (Inr v, d1)"
  shows "\<exists>st. fst (getStats glob nsB d1 now') = Inr st
            \<and> hits st = Some (if v = None then h else h + 1)
            \<and> misses st = Some (if v = None then m + 1 else m)"
proof -
  obtain r where g: "getJSON c d now (getKey nsA key) = (r, d)"
    using getJSON_eq [OF refl] by blast
  then obtain got where r: "r = Inr got"
    using assms(5) by (cases r) (auto simp: cache_get_def)
  show ?thesis
  proof (cases "got = None")
    case True
    obtain ri di where i: "incrementMisses d now = (ri, di)"
      by (cases "incrementMisses d now") auto
    then obtain u where ri: "ri = Inr u"
      using assms(5) g r True by (cases ri) (auto simp: cache_get_def)
    have di: "di = store (statsKey @ '':misses'') (Entry (Str (show_int (m + 1))) None) d"
      using incrementMisses_Inr [OF assms(2)] i ri by blast
    have lt: "m < int64_max"
      using incr_counter_Inr [OF assms(2), of now] i ri
      by (cases "incr d now (statsKey @ '':misses'')") (auto simp: incrementMisses_def andThen_def split: sum.splits)
    have "v = None \<and> d1 = di"
      using assms(5) g r True i ri by (simp add: cache_get_def)
    then show ?thesis
      using bumped_misses [OF assms(1,2,3,4) lt, of glob nsB now'] di by auto
  next
    case False
    obtain ri di where i: "incrementHits d now = (ri, di)"
      by (cases "incrementHits d now") auto
    then obtain u where ri: "ri = Inr u"
      using assms(5) g r False by (cases ri) (auto simp: cache_get_def)
    have di: "di = store (statsKey @ '':hits'') (Entry (Str (show_int (h + 1))) None) d"
      using incrementHits_Inr [OF assms(1)] i ri by blast
    have lt: "h < int64_max"
      using incr_counter_Inr [OF assms(1), of now] i ri
      by (cases "incr d now (statsKey @ '':hits'')") (auto simp: incrementHits_def andThen_def split: sum.splits)
    have "v \<noteq> None \<and> d1 = di"
      using assms(5) g r False i ri by (auto simp: cache_get_def)
    then show ?thesis
      using bumped_hits [OF assms(1,2,3,4) lt, of glob nsB now'] di by auto
  qed
qed

lemma set_with_ttl_cases:
  "set_value d now k v (Some (noOptions\<lparr>EX_sec := Some s\<rparr>)) =
     (if 0 < s then (Inr (Some ''OK''), store k (Entry (Str v) (Some (now + s * 1000))) d)
      else (Inl InvalidExpire, d))"
  by (simp add: set_value_def cmd_SET_def noOptions_def)

lemma getOrSet_stats:
  assumes "counter_at d (statsKey @ '':hits'') h" and "counter_at d (statsKey @ '':misses'') m"
    and "0 \<le> h" and "0 \<le> m"
    and "getOrSet c nsA d now key loader w t = ((Inr x, d2), w2)"
    and "getKey nsA key \<noteq> statsKey @ '':hits''" and "getKey nsA key \<noteq> statsKey @ '':misses''"
  shows "\<exists>st. fst (getStats glob nsB d2 now') = Inr st
            \<and> ((hits st = Some (h + 1) \<and> misses st = Some m)
               \<or> (hits st = Some h \<and> misses st = Some (m + 1)))"
proof -
  obtain r where g: "getJSON c d now (getKey nsA key) = (r, d)"
    using getJSON_eq [OF refl] by blast
  then obtain got where r: "r = Inr got"
    using assms(5) by (cases r) (auto simp: getOrSet_def)
  show ?thesis
  proof (cases got)
    case (Some v)
    obtain ri di where i: "incrementHits d now = (ri, di)"
      by (cases "incrementHits d now") auto
    then obtain u where ri: "ri = Inr u"
      using assms(5) g r Some by (cases ri) (auto simp: getOrSet_def)
    have di: "di = store (statsKey @ '':hits'') (Entry (Str (show_int (h + 1))) None) d"
      using incrementHits_Inr [OF assms(1)] i ri by blast
    have lt: "h < int64_max"
      using incr_counter_Inr [OF assms(1), of now] i ri
      by (cases "incr d now (statsKey @ '':hits'')") (auto simp: incrementHits_def andThen_def split: sum.splits)
    have "d2 = di"
      using assms(5) g r Some i ri by (simp add: getOrSet_def)
    then show ?thesis
      using bumped_hits [OF assms(1,2,3,4) lt, of glob nsB now'] di by auto
  next
    case None
    obtain ri di where i: "incrementMisses d now = (ri, di)"
      by (cases "incrementMisses d now") auto
    then obtain u where ri: "ri = Inr u"
      using assms(5) g r None by (cases ri) (auto simp: getOrSet_def)
    have di: "di = store (statsKey @ '':misses'') (Entry (Str (show_int (m + 1))) None) d"
      using incrementMisses_Inr [OF assms(2)] i ri by blast
    have lt: "m < int64_max"
      using incr_counter_Inr [OF assms(2), of now] i ri
      by (cases "incr d now (statsKey @ '':misses'')") (auto simp: incrementMisses_def andThen_def split: sum.splits)
    obtain lr lw where l: "loader w = (lr, lw)"
      by (cases "loader w") auto
    then obtain payload where lr: "lr = Inr payload"
      using assms(5) g r None i ri by (cases lr) (auto simp: getOrSet_def)
    have d2: "d2 = store (getKey nsA key)
                (Entry (Str (stringify c payload)) (Some (now + ttl_or_default t * 1000))) di"
      using assms(5) g r None i ri l lr
      by (auto simp: getOrSet_def setJSON_def set_with_ttl_cases split: if_splits)
    have c1: "counter_at d2 (statsKey @ '':misses'') (m + 1)"
      unfolding d2 di using incr_counter(2) [OF assms(2) lt] assms(7)
      by (simp add: counter_at_store_other)
    have c2: "counter_at d2 (statsKey @ '':hits'') h"
      unfolding d2 di using assms(1,6)
      by (simp add: counter_at_store_other)
    show ?thesis
      using counter_stats [OF c2 c1 assms(3), of glob nsB now'] assms(4) by auto
  qed
qed

text \<open>
  C9 (as amended). The hit and miss counters live under the fixed keys \<open>cache:stats:hits\<close>
  and \<open>cache:stats:misses\<close>, whatever the namespace of the instance: all instances over one
  store share them. With the counters reading \<open>h\<close> and \<open>m\<close>, a \<open>get\<close> through an instance
  with namespace \<open>nsA\<close> that returns makes the \<open>getStats\<close> of an instance with any namespace
  \<open>nsB\<close> report one more hit (a value was found) or one more miss (none was found); a
  \<open>getOrSet\<close> through \<open>nsA\<close> that returns, for a cache key other than the two counter keys,
  does the same; and the hits, misses and hit rate that \<open>getStats\<close> reports do not depend on
  the namespace.
\<close>

theorem C9_counters_shared:
  assumes "counter_at d (statsKey @ '':hits'') h" and "counter_at d (statsKey @ '':misses'') m"
    and "0 \<le> h" and "0 \<le> m"
  shows "(cache_get c nsA d now key = (Inr v, d1) \<longrightarrow>
            (\<exists>st. fst (getStats glob nsB d1 now') = Inr st
               \<and> hits st = Some (if v = None then h else h + 1)
               \<and> misses st = Some (if v = None then m + 1 else m)))
       \<and> (getOrSet c nsA d now key loader w t = ((Inr x, d2), w2)
            \<and> getKey nsA key \<noteq> statsKey @ '':hits'' \<and> getKey nsA key \<noteq> statsKey @ '':misses'' \<longrightarrow>
            (\<exists>st. fst (getStats glob nsB d2 now') = Inr st
               \<and> ((hits st = Some (h + 1) \<and> misses st = Some m)
                  \<or> (hits st = Some h \<and> misses st = Some (m + 1)))))
       \<and> map_sum id (\<lambda>st. (hits st, misses st, hitRate st)) (fst (getStats glob nsA d0 now0))
           = map_sum id (\<lambda>st. (hits st, misses st, hitRate st)) (fst (getStats glob nsB d0 now0))"
  using cache_get_stats [OF assms, of c nsA now key v d1 glob nsB now']
    getOrSet_stats [OF assms, of c nsA now key loader w t x d2 w2 glob nsB now']
    getStats_namespace_free [of glob nsA d0 now0 nsB]
  by blast

theorem C9_counterexample:
  "fst (getStats glob_match ''b'' [] 0) =
     Inr \<lparr>hits = Some 0, misses = Some 0, hitRate = 0, totalKeys = 0\<rparr>
   \<and> fst (getStats glob_match ''b'' (snd (cache_get json_text ''a'' [] 0 ''k'')) 0) =
     Inr \<lparr>hits = Some 0, misses = Some 1, hitRate = 0, totalKeys = 0\<rparr>"
proof -
  have z: "math_round 0 = 0"
    unfolding math_round_def by code_simp
  have d1: "cache_get json_text ''a'' [] 0 ''k'' = (Inr None, [(''cache:stats:misses'', Entry (Str ''1'') None)])"
    by (simp add: cache_get_def eval_defs)
  have p: "parseInt ''0'' = Some 0" "parseInt ''1'' = Some 1"
    by (simp_all add: parseInt_def parse_prefix_def digit_of_char_def js_space_def Let_def)
  have a: "fst (getStats glob_match ''b'' [] 0) =
     Inr \<lparr>hits = Some 0, misses = Some 0, hitRate = 0, totalKeys = 0\<rparr>"
    by (simp add: getStats_def get_def lookup_def or_zero_def p scanAll_def z Let_def)
  have b: "fst (getStats glob_match ''b'' [(''cache:stats:misses'', Entry (Str ''1'') None)] 0) =
     Inr \<lparr>hits = Some 0, misses = Some 1, hitRate = 0, totalKeys = 0\<rparr>"
    by (simp add: getStats_def get_def lookup_def expired_def or_zero_def p scanAll_def z statsKey_def getKey_def Let_def)
  show ?thesis
    unfolding d1 using a b by simp
qed

theorem C9_counters_shared_witness:
  "\<exists>st. fst (getStats glob_match ''b'' (snd (cache_get json_text ''a'' [] 0 ''k'')) 5) = Inr st
      \<and> hits st = Some 0 \<and> misses st = Some 1"
proof -
  have d1: "cache_get json_text ''a'' [] 0 ''k'' = (Inr None, snd (cache_get json_text ''a'' [] 0 ''k''))"
    by (simp add: cache_get_def eval_defs)
  have z: "(0::int) \<le> 0" by simp
  from C9_counters_shared [where c = json_text and nsA = "''a''" and nsB = "''b''" and glob = glob_match
      and loader = name_loader and now' = 5,
      OF counter_empty counter_empty z z, THEN conjunct1, THEN mp, OF d1]
  show ?thesis by simp
qed

section \<open>Queue: containers\<close>

lemma map_of_remove: "map_of (remove k d) k' = (if k' = k then None else map_of d k')"
  by (simp add: remove_def delete_conv')

lemma lookup_plain_zset:
  "plain_zset d k zs \<Longrightarrow>
     lookup d now k = (case map_of d k of None \<Rightarrow> None | Some _ \<Rightarrow> Some (Entry (ZSet zs) None))"
  by (auto simp: plain_zset_def lookup_def expired_def split: option.splits)


lemma plain_zset_store: "plain_zset (store k (Entry (ZSet zs) None) d) k zs"
  by (simp add: plain_zset_def map_of_store)

lemma plain_zset_store_other: "k' \<noteq> k \<Longrightarrow> plain_zset (store k e d) k' zs = plain_zset d k' zs"
  by (simp add: plain_zset_def map_of_store)

lemma plain_zset_remove_other: "k' \<noteq> k \<Longrightarrow> plain_zset (remove k d) k' zs = plain_zset d k' zs"
  by (simp add: plain_zset_def map_of_remove)




lemma plain_zset_put: "plain_zset (put_zset k zs d) k zs"
  by (simp add: put_zset_def plain_zset_def map_of_store map_of_remove)

lemma plain_zset_put_other: "k' \<noteq> k \<Longrightarrow> plain_zset (put_zset k ys d) k' zs = plain_zset d k' zs"
  by (simp add: put_zset_def plain_zset_store_other plain_zset_remove_other)


lemma lookup_put_other: "k' \<noteq> k \<Longrightarrow> lookup (put_zset k ys d) now k' = lookup d now k'"
  by (simp add: put_zset_def lookup_store lookup_remove)

lemma zadd_plain:
  assumes "plain_zset d k zs"
  shows "zadd d now k [(s, m)] =
     (Inr (if m \<in> set (map snd zs) then 0 else 1),
      store k (Entry (ZSet ((s, m) # filter (\<lambda>q. snd q \<noteq> m) zs)) None) d)"
proof (cases "map_of d k")
  case None
  then have "zs = []" using assms by (simp add: plain_zset_def)
  then show ?thesis
    using None by (simp add: zadd_def lookup_def Let_def)
next
  case (Some e)
  then have "lookup d now k = Some (Entry (ZSet zs) None)"
    using lookup_plain_zset [OF assms, of now] by simp
  then show ?thesis
    by (simp add: zadd_def Let_def)
qed

lemma zrem_plain:
  assumes "plain_zset d k zs"
  shows "zrem d now k [m] =
     (Inr (int (length zs) - int (length (filter (\<lambda>q. snd q \<noteq> m) zs))),
      put_zset k (filter (\<lambda>q. snd q \<noteq> m) zs) d)"
proof (cases "map_of d k")
  case None
  then have zs: "zs = []" using assms by (simp add: plain_zset_def)
  have "remove k d = d"
    using None by (simp add: remove_def delete_notin_dom map_of_eq_None_iff)
  then show ?thesis
    by (simp add: zrem_def lookup_def put_zset_def None zs)
next
  case (Some e)
  then have "lookup d now k = Some (Entry (ZSet zs) None)"
    using lookup_plain_zset [OF assms, of now] by simp
  then show ?thesis
    by (simp add: zrem_def Let_def put_zset_def)
qed

lemma range_plain:
  assumes "plain_zset d k zs"
  shows "cmd_ZRANGEBYSCORE_LIMIT d now k lo hi off cnt =
     (Inr (take cnt (drop off (map snd (sort (filter (\<lambda>q. lo \<le> fst q \<and> fst q \<le> hi) zs))))), d)"
proof (cases "map_of d k")
  case None
  then have "zs = []" using assms by (simp add: plain_zset_def)
  then show ?thesis
    using None by (simp add: cmd_ZRANGEBYSCORE_LIMIT_def lookup_def)
next
  case (Some e)
  then have "lookup d now k = Some (Entry (ZSet zs) None)"
    using lookup_plain_zset [OF assms, of now] by simp
  then show ?thesis
    by (simp add: cmd_ZRANGEBYSCORE_LIMIT_def)
qed

lemma queue_keys_differ:
  "pending_key \<noteq> processing_key" "pending_key \<noteq> failed_key" "processing_key \<noteq> failed_key"
  "job_key i \<noteq> pending_key" "job_key i \<noteq> processing_key" "job_key i \<noteq> failed_key"
  "processing_key \<noteq> pending_key" "failed_key \<noteq> pending_key" "failed_key \<noteq> processing_key"
  "pending_key \<noteq> job_key i" "processing_key \<noteq> job_key i" "failed_key \<noteq> job_key i"
  by (simp_all add: pending_key_def processing_key_def failed_key_def job_key_def addPrefix_def)


lemma queue_calls:
  "ns_zrem queue_namespace d now ''pending'' ms = zrem d now pending_key ms"
  "ns_zrem queue_namespace d now ''processing'' ms = zrem d now processing_key ms"
  "ns_zadd queue_namespace d now ''pending'' ps = zadd d now pending_key ps"
  "ns_zadd queue_namespace d now ''processing'' ps = zadd d now processing_key ps"
  "ns_getJSON queue_namespace c d now (''job:'' @ i) = getJSON c d now (job_key i)"
  "ns_setJSON queue_namespace c d now (''job:'' @ i) j opts = setJSON c d now (job_key i) j opts"
  "ns_SADD queue_namespace d now ''failed'' i = cmd_SADD d now failed_key i"
  "ns_ZRANGEBYSCORE_LIMIT queue_namespace d now ''pending'' lo hi off cnt
     = cmd_ZRANGEBYSCORE_LIMIT d now pending_key lo hi off cnt"
  by (simp_all add: ns_zrem_def ns_zadd_def ns_getJSON_def ns_setJSON_def ns_SADD_def
      ns_ZRANGEBYSCORE_LIMIT_def pending_key_def processing_key_def failed_key_def job_key_def)

lemma getJob_getJSON: "getJob c d now i = getJSON c d now (job_key i)"
  by (simp add: getJob_def ns_getJSON_def job_key_def)

lemma getJSON_frame:
  "lookup d' now k = lookup d now k \<Longrightarrow> fst (getJSON c d' now k) = fst (getJSON c d now k)"
  by (simp add: getJSON_def get_def andThen_def split: option.splits entry.splits rvalue.splits)

text \<open>The store after \<open>next\<close> has moved an id from pending to processing.\<close>

lemma next_claim_plain:
  assumes "plain_zset d pending_key zs" and "plain_zset d processing_key ps"
  shows "next_claim c d now i =
     (case fst (getJob c d now i) of
        Inl e \<Rightarrow>
          (Inl e, store processing_key (Entry (ZSet ((now, i) # filter (\<lambda>q. snd q \<noteq> i) ps)) None)
                    (put_zset pending_key (filter (\<lambda>q. snd q \<noteq> i) zs) d))
      | Inr None \<Rightarrow>
          (Inr None, put_zset processing_key (filter (\<lambda>q. snd q \<noteq> i) ps)
                    (store processing_key (Entry (ZSet ((now, i) # filter (\<lambda>q. snd q \<noteq> i) ps)) None)
                    (put_zset pending_key (filter (\<lambda>q. snd q \<noteq> i) zs) d)))
      | Inr (Some j) \<Rightarrow>
          (Inr (Some j), store processing_key (Entry (ZSet ((now, i) # filter (\<lambda>q. snd q \<noteq> i) ps)) None)
                    (put_zset pending_key (filter (\<lambda>q. snd q \<noteq> i) zs) d)))"
proof -
  let ?d1 = "put_zset pending_key (filter (\<lambda>q. snd q \<noteq> i) zs) d"
  let ?ps = "(now, i) # filter (\<lambda>q. snd q \<noteq> i) ps"
  let ?d2 = "store processing_key (Entry (ZSet ?ps) None) ?d1"
  have p1: "plain_zset ?d1 processing_key ps"
    using assms(2) by (simp add: plain_zset_put_other queue_keys_differ)
  have p2: "plain_zset ?d2 processing_key ?ps"
    by (rule plain_zset_store)
  have "lookup ?d2 now (job_key i) = lookup d now (job_key i)"
    by (simp add: lookup_store lookup_put_other queue_keys_differ)
  then have g: "getJSON c ?d2 now (job_key i) = (fst (getJob c d now i), ?d2)"
    using getJSON_frame [of ?d2 now "job_key i" d c] getJSON_snd [of c ?d2 now "job_key i"]
    by (cases "getJSON c ?d2 now (job_key i)") (simp add: getJob_getJSON)
  have z3: "zrem ?d2 now processing_key [i] =
      (Inr (int (length ?ps) - int (length (filter (\<lambda>q. snd q \<noteq> i) ?ps))),
       put_zset processing_key (filter (\<lambda>q. snd q \<noteq> i) ps) ?d2)"
    using zrem_plain [OF p2, of now i] by simp
  show ?thesis
    unfolding next_claim_def queue_calls
    by (simp only: zrem_plain [OF assms(1)] zadd_plain [OF p1] andThen_Inr g)
       (simp add: z3 split: sum.splits option.splits)
qed

lemma next_candidate_plain:
  assumes "plain_zset d pending_key zs"
  shows "next_candidate d now =
     (Inr (take 1 (map snd (sort (filter (\<lambda>q. 0 \<le> fst q \<and> fst q \<le> now) zs)))), d)"
  unfolding next_candidate_def queue_calls
  using range_plain [OF assms, of now 0 now 0 1] by simp

lemma zrem_frame: "k' \<noteq> k \<Longrightarrow> lookup (snd (zrem d now k ms)) now' k' = lookup d now' k'"
  by (simp add: zrem_def Let_def lookup_store lookup_remove
      split: option.splits entry.splits rvalue.splits)

lemma zadd_frame: "k' \<noteq> k \<Longrightarrow> lookup (snd (zadd d now k ps)) now' k' = lookup d now' k'"
  by (simp add: zadd_def Let_def lookup_store split: option.splits entry.splits rvalue.splits)

lemma next_candidate_snd: "snd (next_candidate d now) = d"
  by (simp add: next_candidate_def ns_ZRANGEBYSCORE_LIMIT_def cmd_ZRANGEBYSCORE_LIMIT_def
      split: option.splits entry.splits rvalue.splits)

lemma next_claim_record:
  assumes "next_claim c d now i = (Inr (Some j), d')"
  shows "fst (getJob c d now i) = Inr (Some j) \<and> (\<forall>t. lookup d' t (job_key i) = lookup d t (job_key i))"
proof -
  obtain r1 d1 where z: "zrem d now pending_key [i] = (r1, d1)"
    by (cases "zrem d now pending_key [i]") auto
  then obtain n1 where r1: "r1 = Inr n1"
    using assms by (cases r1) (auto simp: next_claim_def queue_calls)
  obtain r2 d2 where a: "zadd d1 now processing_key [(now, i)] = (r2, d2)"
    by (cases "zadd d1 now processing_key [(now, i)]") auto
  then obtain n2 where r2: "r2 = Inr n2"
    using assms z r1 by (cases r2) (auto simp: next_claim_def queue_calls)
  have f1: "lookup d1 t (job_key i) = lookup d t (job_key i)" for t
    using zrem_frame [of "job_key i" pending_key d now "[i]" t] z by (simp add: queue_keys_differ)
  have f2: "lookup d2 t (job_key i) = lookup d1 t (job_key i)" for t
    using zadd_frame [of "job_key i" processing_key d1 now "[(now, i)]" t] a by (simp add: queue_keys_differ)
  have g: "getJSON c d2 now (job_key i) = (fst (getJob c d now i), d2)"
    using getJSON_frame [of d2 now "job_key i" d c] getJSON_snd [of c d2 now "job_key i"] f1 f2
    by (cases "getJSON c d2 now (job_key i)") (simp add: getJob_getJSON)
  have "andThen (getJSON c d2 now (job_key i)) (\<lambda>j d3.
       (case j of
          None \<Rightarrow> andThen (zrem d3 now processing_key [i]) (\<lambda>_ d4. (Inr None, d4))
        | Some found \<Rightarrow> (Inr (Some found), d3))) = (Inr (Some j), d')"
    using assms unfolding next_claim_def queue_calls
    by (simp only: z r1 a r2 andThen_Inr)
  then have res: "fst (getJob c d now i) = Inr (Some j) \<and> d' = d2"
    unfolding g
    by (cases "fst (getJob c d now i)")
       (auto simp: andThen_def split: option.splits prod.splits sum.splits)
  then show ?thesis
    using f1 f2 by simp
qed

lemma next_job_record:
  assumes "next_job c d now = (Inr (Some j), d')"
  shows "\<exists>jobId rest. fst (next_candidate d now) = Inr (jobId # rest)
            \<and> fst (getJob c d now jobId) = Inr (Some j)
            \<and> (\<forall>t. lookup d' t (job_key jobId) = lookup d t (job_key jobId))"
proof -
  obtain r where n: "next_candidate d now = (r, d)"
    using next_candidate_snd [of d now] by (cases "next_candidate d now") auto
  then obtain ids where r: "r = Inr ids"
    using assms by (cases r) (auto simp: next_job_def)
  then obtain jobId rest where ids: "ids = jobId # rest"
    using assms n by (cases ids) (auto simp: next_job_def)
  have "next_claim c d now jobId = (Inr (Some j), d')"
    using assms n r ids by (simp add: next_job_def)
  from next_claim_record [OF this] show ?thesis
    using n r ids by auto
qed

lemma set_plain:
  "set_value d now k v None = (Inr (Some ''OK''), store k (Entry (Str v) None) d)"
  by (simp add: set_value_def cmd_SET_def noOptions_def)

lemma add_plain:
  assumes "plain_zset d pending_key zs"
  shows "add c d now rnd ty payload options =
     (Inr (generateJobId now rnd),
      store pending_key
        (Entry (ZSet ((schedule_time now options
                        + (10 - priority (new_job now (generateJobId now rnd) ty payload options)),
                       generateJobId now rnd)
                      # filter (\<lambda>q. snd q \<noteq> generateJobId now rnd) zs)) None)
        (store (job_key (generateJobId now rnd))
           (Entry (Str (stringify c (new_job now (generateJobId now rnd) ty payload options))) None) d))"
proof -
  let ?i = "generateJobId now rnd"
  let ?d1 = "store (job_key ?i) (Entry (Str (stringify c (new_job now ?i ty payload options))) None) d"
  have p: "plain_zset ?d1 pending_key zs"
    using assms by (simp add: plain_zset_store_other queue_keys_differ)
  show ?thesis
    unfolding add_def Let_def queue_calls setJSON_def
    by (simp only: set_plain andThen_Inr zadd_plain [OF p])
qed

lemma getJob_stored:
  assumes "lookup d now (job_key i) = Some (Entry (Str (stringify c j)) x)" and "reads_back c j"
  shows "fst (getJob c d now i) = Inr (Some j)"
  using assms by (simp add: getJob_getJSON getJSON_def get_def reads_back_def)

lemmas queue_eval =
  add_def next_job_def next_claim_def next_candidate_def fail_def getJob_def generateJobId_def
  new_job_def schedule_time_def demo_options_def demo_job_def queue_namespace_def
  ns_setJSON_def ns_getJSON_def ns_zadd_def ns_zrem_def ns_ZRANGEBYSCORE_LIMIT_def ns_SADD_def
  ns_ZSCORE_def cmd_ZSCORE_def cmd_SADD_def cmd_ZRANGEBYSCORE_LIMIT_def zadd_def zrem_def
  setJSON_def getJSON_def get_def set_value_def cmd_SET_def noOptions_def
  addPrefix_def prefix_of_def lookup_def store_def remove_def expired_def Let_def andThen_def
  json_job_def stringify_job_def parse_job_def field_def quote_def read_field_def read_optional_def
  read_quoted_def read_number_def parse_int_def parse_loose_def digit_of_char_def show_int_def
  show_nat.simps char_of_digit_def

lemma demo_text: "stringify_job demo_job =
  ''{'' @ quote ''id'' @ '':'' @ quote ''1000-abc'' @ '','' @ quote ''type'' @ '':'' @ quote ''email''
  @ '','' @ quote ''data'' @ '':'' @ quote ''hello'' @ '','' @ quote ''priority'' @ '':8,''
  @ quote ''createdAt'' @ '':1000,'' @ quote ''attempts'' @ '':0,'' @ quote ''maxRetries'' @ '':3,''
  @ quote ''scheduledFor'' @ '':1000}''"
  by (simp add: queue_eval)

lemma run_add: "queue_run_add = (Inr ''1000-abc'',
   [(''queue:job:1000-abc'', Entry (Str (stringify_job demo_job)) None),
    (''queue:pending'', Entry (ZSet [(1002, ''1000-abc'')]) None)])"
  unfolding demo_text by (simp add: queue_run_add_def queue_eval)

lemma demo_reads: "parse_job (stringify_job demo_job) = Some demo_job"
  by (simp add: queue_eval)

lemmas queue_ops =
  add_def next_job_def next_claim_def next_candidate_def fail_def getJob_def generateJobId_def
  new_job_def schedule_time_def demo_options_def queue_namespace_def
  ns_setJSON_def ns_getJSON_def ns_zadd_def ns_zrem_def ns_ZRANGEBYSCORE_LIMIT_def ns_SADD_def
  ns_ZSCORE_def cmd_ZSCORE_def cmd_SADD_def cmd_ZRANGEBYSCORE_LIMIT_def zadd_def zrem_def
  setJSON_def getJSON_def get_def set_value_def cmd_SET_def noOptions_def
  addPrefix_def prefix_of_def lookup_def store_def remove_def expired_def Let_def andThen_def
  json_job_def

lemma demo_text_nonempty: "stringify_job j \<noteq> []"
  by (simp add: stringify_job_def)

lemma run_next: "queue_run_next = (Inr (Some demo_job),
   [(''queue:job:1000-abc'', Entry (Str (stringify_job demo_job)) None),
    (''queue:processing'', Entry (ZSet [(1002, ''1000-abc'')]) None)])"
  unfolding queue_run_next_def run_add
  by (simp add: queue_ops demo_reads demo_text_nonempty)

theorem C1_counterexample:
  "fst queue_run_add = Inr ''1000-abc''
   \<and> fst queue_run_next =
        Inr (Some \<lparr>job_id = ''1000-abc'', job_type = ''email'', job_data = ''hello'', priority = 8,
                    createdAt = 1000, attempts = 0, maxRetries = 3, lastError = None,
                    scheduledFor = Some 1000\<rparr>)"
  unfolding run_next run_add by (simp add: demo_job_def)


lemma next_job_plain:
  assumes "plain_zset d pending_key zs"
  shows "next_job c d now =
     (case take 1 (map snd (sort (filter (\<lambda>q. 0 \<le> fst q \<and> fst q \<le> now) zs))) of
        [] \<Rightarrow> (Inr None, d)
      | jobId # _ \<Rightarrow> next_claim c d now jobId)"
  unfolding next_job_def next_candidate_plain [OF assms] by simp

lemma add_then_next:
  assumes "plain_zset d0 pending_key []" and "plain_zset d0 processing_key ps"
    and "reads_back c (new_job t0 (generateJobId t0 rnd) ty payload options)"
    and "0 \<le> schedule_time t0 options + (10 - priority (new_job t0 (generateJobId t0 rnd) ty payload options))"
    and "schedule_time t0 options + (10 - priority (new_job t0 (generateJobId t0 rnd) ty payload options)) \<le> t1"
  shows "\<exists>d1 d2. add c d0 t0 rnd ty payload options = (Inr (generateJobId t0 rnd), d1)
          \<and> next_job c d1 t1 = (Inr (Some (new_job t0 (generateJobId t0 rnd) ty payload options)), d2)"
proof -
  let ?i = "generateJobId t0 rnd"
  let ?j = "new_job t0 ?i ty payload options"
  let ?s = "schedule_time t0 options + (10 - priority ?j)"
  let ?d1 = "store pending_key (Entry (ZSet [(?s, ?i)]) None)
               (store (job_key ?i) (Entry (Str (stringify c ?j)) None) d0)"
  have a: "add c d0 t0 rnd ty payload options = (Inr ?i, ?d1)"
    using add_plain [OF assms(1), of c t0 rnd ty payload options] by simp
  have p1: "plain_zset ?d1 pending_key [(?s, ?i)]"
    by (rule plain_zset_store)
  have p2: "plain_zset ?d1 processing_key ps"
    using assms(2) by (simp add: plain_zset_store_other queue_keys_differ)
  have "lookup ?d1 t1 (job_key ?i) = Some (Entry (Str (stringify c ?j)) None)"
    by (simp add: lookup_store queue_keys_differ expired_def)
  then have g: "fst (getJob c ?d1 t1 ?i) = Inr (Some ?j)"
    using assms(3) by (rule getJob_stored)
  have "next_job c ?d1 t1 = next_claim c ?d1 t1 ?i"
    using assms(4,5) by (simp add: next_job_plain [OF p1])
  then have "\<exists>d2. next_job c ?d1 t1 = (Inr (Some ?j), d2)"
    by (simp add: next_claim_plain [OF p1 p2] g)
  then show ?thesis
    using a by blast
qed

text \<open>
  C1 (as amended). \<open>next()\<close> does not touch \<open>attempts\<close>: the job it returns is the record
  stored under the claimed id, as it was read, and the stored record is left as it is.
  The first \<open>next()\<close> after \<open>add\<close>, on a queue with no other pending job and a record that
  reads back from its JSON text, returns the job with \<open>attempts = 0\<close>. (The counter is
  incremented by \<open>fail\<close>.)
\<close>

theorem C1_next_returns_stored_record:
  "(next_job c d now = (Inr (Some j), d') \<longrightarrow>
      (\<exists>jobId rest. fst (next_candidate d now) = Inr (jobId # rest)
          \<and> fst (getJob c d now jobId) = Inr (Some j)
          \<and> (\<forall>t. lookup d' t (job_key jobId) = lookup d t (job_key jobId))))
   \<and> (plain_zset d0 pending_key [] \<and> plain_zset d0 processing_key ps
        \<and> reads_back c (new_job t0 (generateJobId t0 rnd) ty payload options)
        \<and> 0 \<le> schedule_time t0 options
                + (10 - priority (new_job t0 (generateJobId t0 rnd) ty payload options))
        \<and> schedule_time t0 options
                + (10 - priority (new_job t0 (generateJobId t0 rnd) ty payload options)) \<le> t1 \<longrightarrow>
      (\<exists>d1 d2. add c d0 t0 rnd ty payload options = (Inr (generateJobId t0 rnd), d1)
          \<and> next_job c d1 t1
               = (Inr (Some (new_job t0 (generateJobId t0 rnd) ty payload options)), d2)
          \<and> attempts (new_job t0 (generateJobId t0 rnd) ty payload options) = 0))"
proof -
  have n: "attempts (new_job t0 (generateJobId t0 rnd) ty payload options) = 0"
    by (simp add: new_job_def)
  show ?thesis
    using next_job_record [of c d now j d']
      add_then_next [of d0 ps c t0 rnd ty payload options t1] n
    by blast
qed

lemma plain_empty: "plain_zset [] k []"
  by (simp add: plain_zset_def)

lemma demo_new_job: "new_job 1000 (generateJobId 1000 ''abc'') ''email'' ''hello'' demo_options = demo_job"
  by (simp add: new_job_def generateJobId_def demo_options_def demo_job_def schedule_time_def
      show_int_def show_nat.simps char_of_digit_def)

theorem C1_next_returns_stored_record_witness:
  "(\<exists>jobId rest. fst (next_candidate (snd queue_run_add) 1002) = Inr (jobId # rest)
       \<and> fst (getJob json_job (snd queue_run_add) 1002 jobId) = Inr (Some demo_job))
   \<and> (\<exists>d1 d2. add json_job [] 1000 ''abc'' ''email'' ''hello'' demo_options = (Inr (generateJobId 1000 ''abc''), d1)
       \<and> next_job json_job d1 1002 = (Inr (Some demo_job), d2)
       \<and> attempts demo_job = 0)"
proof -
  have h1: "next_job json_job (snd queue_run_add) 1002 = (Inr (Some demo_job), snd queue_run_next)"
    using run_next by (simp add: queue_run_next_def)
  have h2: "plain_zset [] pending_key [] \<and> plain_zset [] processing_key []
        \<and> reads_back json_job (new_job 1000 (generateJobId 1000 ''abc'') ''email'' ''hello'' demo_options)
        \<and> 0 \<le> schedule_time 1000 demo_options
                + (10 - priority (new_job 1000 (generateJobId 1000 ''abc'') ''email'' ''hello'' demo_options))
        \<and> schedule_time 1000 demo_options
                + (10 - priority (new_job 1000 (generateJobId 1000 ''abc'') ''email'' ''hello'' demo_options)) \<le> 1002"
  proof -
    have pr: "priority demo_job = 8"
      by (simp add: demo_job_def)
    have st: "schedule_time 1000 demo_options = 1000"
      by (simp add: schedule_time_def demo_options_def)
    show ?thesis
      unfolding demo_new_job pr st
      by (simp add: plain_empty reads_back_def json_job_def demo_reads demo_text_nonempty)
  qed
  note T = C1_next_returns_stored_record [where c = json_job and d = "snd queue_run_add" and now = 1002
      and j = demo_job and d' = "snd queue_run_next" and ?d0.0 = "[]" and ps = "[]" and ?t0.0 = 1000
      and rnd = "''abc''" and ty = "''email''" and payload = "''hello''" and options = demo_options
      and ?t1.0 = 1002]
  from T [THEN conjunct1, THEN mp, OF h1]
  have w1: "\<exists>jobId rest. fst (next_candidate (snd queue_run_add) 1002) = Inr (jobId # rest)
       \<and> fst (getJob json_job (snd queue_run_add) 1002 jobId) = Inr (Some demo_job)"
    by blast
  from T [THEN conjunct2, THEN mp, OF h2]
  have w2: "\<exists>d1 d2. add json_job [] 1000 ''abc'' ''email'' ''hello'' demo_options = (Inr (generateJobId 1000 ''abc''), d1)
       \<and> next_job json_job d1 1002 = (Inr (Some demo_job), d2)
       \<and> attempts demo_job = 0"
    unfolding demo_new_job by blast
  from w1 w2 show ?thesis by blast
qed







text \<open>
  C10. When the candidate id's record is not found, \<open>next()\<close> returns null without an
  error: the id is gone from pending and from processing, every other pending entry is
  still pending (no other job is claimed in this call), and the record is still absent.
\<close>

theorem C10_dangling_entry:
  assumes "plain_zset d pending_key zs" and "plain_zset d processing_key ps"
    and "fst (next_candidate d now) = Inr (jobId # rest)"
    and "fst (getJob c d now jobId) = Inr None"
  shows "\<exists>d'. next_job c d now = (Inr None, d')
            \<and> plain_zset d' pending_key (filter (\<lambda>q. snd q \<noteq> jobId) zs)
            \<and> plain_zset d' processing_key (filter (\<lambda>q. snd q \<noteq> jobId) ps)
            \<and> fst (getJob c d' now jobId) = Inr None"
proof -
  let ?zs = "filter (\<lambda>q. snd q \<noteq> jobId) zs" and ?ps = "filter (\<lambda>q. snd q \<noteq> jobId) ps"
  let ?d' = "put_zset processing_key ?ps
               (store processing_key (Entry (ZSet ((now, jobId) # ?ps)) None)
                 (put_zset pending_key ?zs d))"
  have "next_candidate d now = (Inr (jobId # rest), d)"
    using assms(3) next_candidate_snd [of d now] by (cases "next_candidate d now") simp
  then have "next_job c d now = next_claim c d now jobId"
    by (simp add: next_job_def)
  then have r: "next_job c d now = (Inr None, ?d')"
    unfolding next_claim_plain [OF assms(1,2)] using assms(4) by simp
  have p1: "plain_zset ?d' pending_key ?zs"
    by (simp add: plain_zset_put plain_zset_put_other plain_zset_store_other queue_keys_differ)
  have p2: "plain_zset ?d' processing_key ?ps"
    by (rule plain_zset_put)
  have "lookup ?d' now (job_key jobId) = lookup d now (job_key jobId)"
    by (simp add: lookup_put_other lookup_store queue_keys_differ)
  then have g: "fst (getJob c ?d' now jobId) = Inr None"
    using getJSON_frame [of ?d' now "job_key jobId" d c] assms(4) by (simp add: getJob_getJSON)
  show ?thesis
    using r p1 p2 g by blast
qed

lemma run_ghost: "queue_run_ghost =
   [(''queue:job:1000-abc'', Entry (Str (stringify_job demo_job)) None),
    (''queue:pending'', Entry (ZSet [(5, ''ghost''), (1002, ''1000-abc'')]) None)]"
  unfolding queue_run_ghost_def run_add by (simp add: queue_ops)

theorem C10_dangling_entry_witness:
  "\<exists>d'. next_job json_job queue_run_ghost 1002 = (Inr None, d')
      \<and> plain_zset d' pending_key [(1002, ''1000-abc'')]
      \<and> plain_zset d' processing_key []"
proof -
  have p: "plain_zset queue_run_ghost pending_key [(5, ''ghost''), (1002, ''1000-abc'')]"
    "plain_zset queue_run_ghost processing_key []"
    unfolding run_ghost
    by (simp_all add: plain_zset_def pending_key_def processing_key_def addPrefix_def prefix_of_def
        queue_namespace_def)
  have cand: "fst (next_candidate queue_run_ghost 1002) = Inr (''ghost'' # [])"
    unfolding run_ghost by (simp add: queue_ops)
  have g: "fst (getJob json_job queue_run_ghost 1002 ''ghost'') = Inr None"
    unfolding run_ghost by (simp add: queue_ops)
  from C10_dangling_entry [OF p cand g]
  have "\<exists>d'. next_job json_job queue_run_ghost 1002 = (Inr None, d')
      \<and> plain_zset d' pending_key [(1002, ''1000-abc'')]
      \<and> plain_zset d' processing_key []
      \<and> fst (getJob json_job d' 1002 ''ghost'') = Inr None"
    by simp
  then show ?thesis by blast
qed

section \<open>Queue: ordering\<close>














section \<open>Queue: failure and retry\<close>









lemma plain_set_cong: "map_of d' k = map_of d k \<Longrightarrow> plain_set d' k ms = plain_set d k ms"
  by (simp add: plain_set_def)



















end
